(* ===== verification/LS_Prelude.thy ===== *)
theory LS_Prelude
  imports Complex_Main "HOL-Library.Word" "HOL-Library.Sublist" "HOL-Library.While_Combinator"
begin

text \<open>
  Shared ground of the development: the widths of the C integers, the decimal, string and
  number routines of the C library that the daemon calls (\<^verbatim>\<open>snprintf\<close>,
  \<^verbatim>\<open>strtoull\<close>, \<^verbatim>\<open>strtol\<close>, \<^verbatim>\<open>strcasecmp\<close>),
  and the collections of lemmas that the component theories hand to \<open>simp\<close> and \<open>auto\<close>.

  A C string is a \<^typ>\<open>string\<close> without its terminating NUL. \<^verbatim>\<open>uint64_t\<close> and
  \<^verbatim>\<open>unsigned long long\<close> are \<open>64 word\<close>; \<^verbatim>\<open>long\<close> has 64 bits
  and \<^verbatim>\<open>int\<close> has 32, as on every 64-bit Linux target of the build.
\<close>

section \<open>Machine integers\<close>

type_synonym u8 = "8 word"
type_synonym u16 = "16 word"
type_synonym u32 = "32 word"
type_synonym u64 = "64 word"

named_theorems word_nat \<open>reading 64-bit words as natural numbers\<close>
named_theorems frame \<open>what an operation leaves unchanged\<close>
named_theorems text_simps \<open>length and shape of formatted text\<close>

definition UINT64_MAX :: u64 where
  "UINT64_MAX = - 1"

definition INT_MAX :: int where
  "INT_MAX = 2147483647"

lemma unat_UINT64_MAX [simp, word_nat]: "unat UINT64_MAX = 18446744073709551615"
  by (simp add: UINT64_MAX_def unsigned_minus_1_eq_mask mask_eq_exp_minus_1)

lemma le_UINT64_MAX [simp]: "x \<le> UINT64_MAX"
  by (simp add: UINT64_MAX_def)

lemma unat_lt_UINT64 [simp]: "unat (x :: u64) < 18446744073709551616"
  using unsigned_less [of x] by simp

lemma unat_bounds:
  "unat (a :: u8) < 256" "unat (b :: u16) < 65536" "unat (c :: u32) < 4294967296"
proof -
  have "unat a < 2 ^ LENGTH(8)" "unat b < 2 ^ LENGTH(16)" "unat c < 2 ^ LENGTH(32)"
    by (rule unsigned_less)+
  then show "unat a < 256" "unat b < 65536" "unat c < 4294967296"
    by simp_all
qed

lemma unat_le_UINT64: "unat (x :: u64) \<le> 18446744073709551615"
  using unat_lt_UINT64 [of x] by linarith

lemma u64_eq_UINT64_MAX: "x = UINT64_MAX \<longleftrightarrow> unat x = 18446744073709551615"
  by (simp add: word_unat_eq_iff)

lemma not_UINT64_MAX_iff: "x \<noteq> UINT64_MAX \<longleftrightarrow> unat x < 18446744073709551615"
  using unat_le_UINT64 [of x] by (auto simp: u64_eq_UINT64_MAX)

lemma unat_u64_add: "unat ((a :: u64) + b) = (unat a + unat b) mod 18446744073709551616"
  by (simp add: unat_word_ariths)

lemma unat_u64_mult: "unat ((a :: u64) * b) = (unat a * unat b) mod 18446744073709551616"
  by (simp add: unat_word_ariths)

lemma unat_u64_of_nat: "n < 18446744073709551616 \<Longrightarrow> unat (of_nat n :: u64) = n"
  by (simp add: unat_of_nat)

lemma unat_u64_diff: "b \<le> a \<Longrightarrow> unat ((a :: u64) - b) = unat a - unat b"
  by (simp add: word_le_nat_alt unat_sub_if')

lemmas u64_to_nat = word_le_nat_alt word_less_nat_alt word_unat_eq_iff unat_div unat_mod

section \<open>Decimal text\<close>

definition digit_char :: "nat \<Rightarrow> char" where
  "digit_char d = char_of (48 + d)"

definition is_digit :: "char \<Rightarrow> bool" where
  "is_digit c \<longleftrightarrow> 48 \<le> (of_char c :: nat) \<and> (of_char c :: nat) \<le> 57"

definition digit_value :: "char \<Rightarrow> nat" where
  "digit_value c = of_char c - 48"

text \<open>\<open>show_nat\<close> is the conversion \<^verbatim>\<open>%u\<close> (and \<^verbatim>\<open>PRIu64\<close>,
  \<^verbatim>\<open>%zu\<close>); \<open>show_int\<close> is \<^verbatim>\<open>%d\<close>.\<close>

fun show_nat :: "nat \<Rightarrow> string" where
  "show_nat n = (if n < 10 then [digit_char n] else show_nat (n div 10) @ [digit_char (n mod 10)])"

declare show_nat.simps [simp del]

definition show_int :: "int \<Rightarrow> string" where
  "show_int i = (if i < 0 then ''-'' @ show_nat (nat (- i)) else show_nat (nat i))"

definition show_u64 :: "u64 \<Rightarrow> string" where
  "show_u64 x = show_nat (unat x)"

definition read_nat :: "string \<Rightarrow> nat" where
  "read_nat ds = foldl (\<lambda>acc c. 10 * acc + digit_value c) 0 ds"

text \<open>\<^verbatim>\<open>snprintf\<close> into a buffer of \<open>n\<close> bytes keeps what fits beside the
  NUL; its return value is the length of the untruncated text.\<close>

definition c_snprintf :: "nat \<Rightarrow> string \<Rightarrow> string" where
  "c_snprintf n s = take (n - 1) s"

lemma length_c_snprintf [text_simps]: "length (c_snprintf n s) = min (length s) (n - 1)"
  by (simp add: c_snprintf_def)

lemma c_snprintf_fits [simp]: "length s < n \<Longrightarrow> c_snprintf n s = s"
  by (simp add: c_snprintf_def)

lemma is_digit_digit_char [simp]: "d < 10 \<Longrightarrow> is_digit (digit_char d)"
  by (simp add: is_digit_def digit_char_def)

lemma digit_value_digit_char [simp]: "d < 10 \<Longrightarrow> digit_value (digit_char d) = d"
  by (simp add: digit_value_def digit_char_def)

lemma digit_value_lt10: "is_digit c \<Longrightarrow> digit_value c < 10"
  by (auto simp: is_digit_def digit_value_def)

lemma show_nat_digits: "list_all is_digit (show_nat n)"
proof (induction n rule: show_nat.induct)
  case (1 n)
  then show ?case
    by (cases "n < 10") (simp_all add: show_nat.simps [of n])
qed

lemma show_nat_nonempty [simp]: "show_nat n \<noteq> []"
  by (subst show_nat.simps) simp

lemma hd_show_nat_digit: "is_digit (hd (show_nat n))"
  using show_nat_digits [of n] by (cases "show_nat n") auto

lemma read_nat_snoc: "read_nat (ds @ [c]) = 10 * read_nat ds + digit_value c"
  by (simp add: read_nat_def)

lemma read_show_nat [simp]: "read_nat (show_nat n) = n"
proof (induction n rule: show_nat.induct)
  case (1 n)
  show ?case
  proof (cases "n < 10")
    case True
    then show ?thesis by (simp add: show_nat.simps [of n] read_nat_def)
  next
    case False
    with 1 show ?thesis by (simp add: show_nat.simps [of n] read_nat_snoc)
  qed
qed

lemma show_nat_inject [simp]: "show_nat m = show_nat n \<longleftrightarrow> m = n"
  by (metis read_show_nat)

lemma length_show_nat_le:
  assumes "n < 10 ^ k" and "0 < k"
  shows "length (show_nat n) \<le> k"
  using assms
proof (induction k arbitrary: n)
  case 0
  then show ?case by simp
next
  case (Suc k)
  show ?case
  proof (cases "n < 10")
    case True
    then show ?thesis by (simp add: show_nat.simps [of n])
  next
    case False
    with Suc.prems have "0 < k" and "n div 10 < 10 ^ k"
      by (auto simp: less_mult_imp_div_less mult.commute intro: gr0I)
    with Suc.IH [of "n div 10"] False show ?thesis by (simp add: show_nat.simps [of n])
  qed
qed

lemma length_show_u64_le [text_simps]: "length (show_u64 x) \<le> 20"
proof -
  have "unat x < 10 ^ 20"
    using unat_lt_UINT64 [of x] by (rule less_le_trans) simp
  then show ?thesis
    unfolding show_u64_def by (rule length_show_nat_le) simp
qed

lemma takeWhile_digits_show_nat:
  assumes "rest = [] \<or> \<not> is_digit (hd rest)"
  shows "takeWhile is_digit (show_nat n @ rest) = show_nat n"
    and "dropWhile is_digit (show_nat n @ rest) = rest"
proof -
  have all: "\<forall>c \<in> set (show_nat n). is_digit c"
    using show_nat_digits [of n] by (simp add: list_all_iff)
  with assms show "takeWhile is_digit (show_nat n @ rest) = show_nat n"
    by (cases rest) (auto simp: takeWhile_append)
  from all assms show "dropWhile is_digit (show_nat n @ rest) = rest"
    by (cases rest) (auto simp: dropWhile_append)
qed

section \<open>Number parsing and string comparison of the C library\<close>

definition is_space :: "char \<Rightarrow> bool" where
  "is_space c \<longleftrightarrow> (of_char c :: nat) \<in> {9, 10, 11, 12, 13, 32}"

text \<open>An optional sign: the text after it, and whether it is a minus.\<close>

fun split_sign :: "string \<Rightarrow> bool \<times> string" where
  "split_sign [] = (False, [])"
| "split_sign (c # cs) =
     (if c = CHR ''-'' then (True, cs) else if c = CHR ''+'' then (False, cs) else (False, c # cs))"

text \<open>What \<^verbatim>\<open>strtoull(s, &endptr, 10)\<close> yields: the value, the text at
  \<open>endptr\<close>, and whether \<^verbatim>\<open>errno\<close> is set (\<^verbatim>\<open>ERANGE\<close>). With no digit at
  all the value is 0 and \<open>endptr\<close> is the start of the text; a minus sign negates modulo
  $2^{64}$.\<close>

definition c_strtoull :: "string \<Rightarrow> u64 \<times> string \<times> bool" where
  "c_strtoull s =
     (let (neg, body) = split_sign (dropWhile is_space s);
          ds = takeWhile is_digit body;
          rest = dropWhile is_digit body;
          v = read_nat ds
      in if ds = [] then (0, s, False)
         else if v > unat UINT64_MAX then (UINT64_MAX, rest, True)
         else (if neg then - of_nat v else of_nat v, rest, False))"

definition LONG_MAX :: int where
  "LONG_MAX = 9223372036854775807"

definition LONG_MIN :: int where
  "LONG_MIN = - 9223372036854775808"

text \<open>\<^verbatim>\<open>strtol(s, &endptr, 10)\<close>, saturating at the ends of \<^verbatim>\<open>long\<close>.\<close>

definition c_strtol :: "string \<Rightarrow> int \<times> string \<times> bool" where
  "c_strtol s =
     (let (neg, body) = split_sign (dropWhile is_space s);
          ds = takeWhile is_digit body;
          rest = dropWhile is_digit body;
          v = (if neg then - int (read_nat ds) else int (read_nat ds))
      in if ds = [] then (0, s, False)
         else if v > LONG_MAX then (LONG_MAX, rest, True)
         else if v < LONG_MIN then (LONG_MIN, rest, True)
         else (v, rest, False))"

definition to_lower :: "char \<Rightarrow> char" where
  "to_lower c =
     (if 65 \<le> (of_char c :: nat) \<and> (of_char c :: nat) \<le> 90 then char_of (of_char c + 32 :: nat) else c)"

text \<open>\<^verbatim>\<open>strcasecmp(a, b) == 0\<close> in the C locale, the only one the program runs in.\<close>

definition strcase_eq :: "string \<Rightarrow> string \<Rightarrow> bool" where
  "strcase_eq a b \<longleftrightarrow> map to_lower a = map to_lower b"

lemma is_digit_not_space: "is_digit c \<Longrightarrow> \<not> is_space c"
  by (auto simp: is_digit_def is_space_def)

lemma is_digit_not_sign: "is_digit c \<Longrightarrow> c \<noteq> CHR ''-'' \<and> c \<noteq> CHR ''+''"
  by (auto simp: is_digit_def)

text \<open>On a text that starts with a digit, blanks and signs play no role.\<close>

lemma c_strtoull_digit:
  assumes "is_digit c"
  shows "c_strtoull (c # cs) =
    (let ds = takeWhile is_digit (c # cs); rest = dropWhile is_digit (c # cs); v = read_nat ds
     in if v > unat UINT64_MAX then (UINT64_MAX, rest, True) else (of_nat v, rest, False))"
  using assms is_digit_not_space [OF assms] is_digit_not_sign [OF assms]
  by (simp add: c_strtoull_def Let_def)

lemma c_strtoull_show_nat:
  assumes "n < 18446744073709551616" and "rest = [] \<or> \<not> is_digit (hd rest)"
  shows "c_strtoull (show_nat n @ rest) = (of_nat n, rest, False)"
proof -
  obtain c cs where cs: "show_nat n = c # cs"
    by (cases "show_nat n") auto
  then have "is_digit c"
    using hd_show_nat_digit [of n] by simp
  from c_strtoull_digit [OF this, of "cs @ rest"] cs
  have "c_strtoull (show_nat n @ rest) =
    (let ds = takeWhile is_digit (show_nat n @ rest);
         rest = dropWhile is_digit (show_nat n @ rest); v = read_nat ds
     in if v > unat UINT64_MAX then (UINT64_MAX, rest, True) else (of_nat v, rest, False))"
    by simp
  with assms show ?thesis
    by (simp add: takeWhile_digits_show_nat Let_def)
qed

end
