(* ===== verification/LS_Os.thy ===== *)
theory LS_Os
  imports LS_Prelude
begin

unbundle bit_operations_syntax

text \<open>
  The boundary to Linux. Everything the daemon asks the kernel or the C library's system layer is
  an answer of the record \<open>os\<close>; nothing is assumed about these answers, so a theorem that
  quantifies over \<open>os\<close> covers every behaviour of the system. Answers that do not change during
  the life of the process (environment, process id, \<^verbatim>\<open>inet_pton\<close>, \<^verbatim>\<open>strerror\<close>)
  are plain functions, and so is the signal mask the process inherits; the answer of a system call is a function of the number of the call, counted
  by \<open>tick\<close>, so that two calls may be answered differently.

  The \<open>world\<close> holds that record, the call counter, and the trace of what the process did to
  the outside, oldest first. \<open>evolves P w w'\<close> says that \<open>w'\<close> is a later state of the same
  system and that every effect in between satisfies \<open>P\<close>; it is the frame condition every
  operation of the development is given.
\<close>

section \<open>Answers of the system\<close>

datatype errno =
    ENETUNREACH | EHOSTUNREACH | ENETDOWN | EHOSTDOWN | ENETRESET | ENOBUFS | EAGAIN | EINTR
  | E_other nat

text \<open>A call inside a \<^verbatim>\<open>do { ... } while (... errno == EINTR)\<close> loop is interrupted
  finitely often and then completes; \<open>settle\<close> is that loop.\<close>

datatype 'a attempt = Interrupted "'a attempt" | Completed 'a

primrec settle :: "'a attempt \<Rightarrow> 'a" where
  "settle (Interrupted r) = settle r"
| "settle (Completed a) = a"

record timespec =
  tv_sec :: int
  tv_nsec :: int

definition AF_INET :: nat where "AF_INET = 2"
definition AF_INET6 :: nat where "AF_INET6 = 10"

text \<open>\<^verbatim>\<open>struct sockaddr_storage\<close>, read through \<^verbatim>\<open>sockaddr_in\<close>
  (\<open>sin_addr\<close>) and \<^verbatim>\<open>sockaddr_in6\<close> (\<open>sin6_addr\<close>).\<close>

record sockaddr_storage =
  ss_family :: nat
  sin_addr :: "u8 list"
  sin6_addr :: "u8 list"

text \<open>The status word of a terminated child, by the macro that recognises it.\<close>

datatype wait_status = WIFEXITED nat | WIFSIGNALED nat | W_other

text \<open>The spawned child as the polling loop of \<^verbatim>\<open>observe_startup\<close> sees it: what each
  \<^verbatim>\<open>waitpid(..., WNOHANG)\<close> reports. \<open>Wait_pending\<close> carries the outcome of the
  \<^verbatim>\<open>nanosleep\<close> that follows, for the duration it is asked to sleep (\<open>None\<close> for success), and
  the answers after it; the list of answers is as long as one likes.\<close>

datatype child_obs =
    Wait_interrupted child_obs
  | Wait_failed errno
  | Wait_status wait_status
  | Wait_pending "timespec \<Rightarrow> errno option attempt" child_obs

record os =
  os_getenv :: "string \<Rightarrow> string option"
  os_getpid :: int
  os_strerror :: "errno \<Rightarrow> string"
  os_big_endian :: bool
  os_sigmask :: "nat set"
  os_inet_pton :: "nat \<Rightarrow> string \<Rightarrow> u8 list option"
  os_access_x :: "string \<Rightarrow> bool"
  os_is_dir :: "string \<Rightarrow> bool"
  os_clock_coarse :: "nat \<Rightarrow> timespec option"
  os_clock_mono :: "nat \<Rightarrow> timespec option"
  os_socket :: "nat \<Rightarrow> errno + nat"
  os_setsockopt :: "nat \<Rightarrow> errno option"
  os_connect :: "nat \<Rightarrow> errno option"
  os_send :: "nat \<Rightarrow> (errno + nat) attempt"
  os_sendto :: "nat \<Rightarrow> (errno + nat) attempt"
  os_recvfrom :: "nat \<Rightarrow> errno + (u8 list \<times> sockaddr_storage)"
  os_sigprocmask :: "nat \<Rightarrow> errno option"
  os_signalfd :: "nat \<Rightarrow> errno + nat"
  os_sigread :: "nat \<Rightarrow> nat option"
  os_poll :: "nat \<Rightarrow> int \<Rightarrow> errno + u16 list"
  os_file_actions :: "nat \<Rightarrow> errno option"
  os_spawn :: "nat \<Rightarrow> errno + nat"
  os_child :: "nat \<Rightarrow> child_obs"
  os_reap :: "nat \<Rightarrow> (errno + nat) attempt"

section \<open>The classic BPF machine\<close>

datatype bpf_insn =
    BPF_LD_B_ABS nat
  | BPF_LD_B_IND nat
  | BPF_ALU_AND_K u32
  | BPF_ALU_MUL_K u32
  | BPF_MISC_TAX
  | BPF_JMP_JEQ_K u32 nat nat
  | BPF_RET_K u32

text \<open>The classic BPF machine: accumulator \<open>a\<close>, index \<open>x\<close>, forward jumps. A load outside the
  packet ends the program with 0 (drop).\<close>

function bpf_run :: "bpf_insn list \<Rightarrow> u32 \<Rightarrow> u32 \<Rightarrow> u8 list \<Rightarrow> u32" where
  "bpf_run [] a x pkt = 0"
| "bpf_run (BPF_LD_B_ABS k # is) a x pkt =
     (if k < length pkt then bpf_run is (ucast (pkt ! k)) x pkt else 0)"
| "bpf_run (BPF_LD_B_IND k # is) a x pkt =
     (if unat x + k < length pkt then bpf_run is (ucast (pkt ! (unat x + k))) x pkt else 0)"
| "bpf_run (BPF_ALU_AND_K k # is) a x pkt = bpf_run is (a AND k) x pkt"
| "bpf_run (BPF_ALU_MUL_K k # is) a x pkt = bpf_run is (a * k) x pkt"
| "bpf_run (BPF_MISC_TAX # is) a x pkt = bpf_run is a a pkt"
| "bpf_run (BPF_JMP_JEQ_K k jt jf # is) a x pkt = bpf_run (drop (if a = k then jt else jf) is) a x pkt"
| "bpf_run (BPF_RET_K k # is) a x pkt = k"
  by pat_completeness auto
termination
  by (relation "measure (\<lambda>(is, a, x, pkt). length is)") auto

section \<open>Effects and the world\<close>

datatype effect =
    is_Stderr: Stderr string
  | is_Notify_send: Notify_send string bool
  | is_Echo_send: Echo_send "u8 list" sockaddr_storage nat "errno + nat"
  | is_Recv_packet: Recv_packet
  | is_Attach_filter: Attach_filter "bpf_insn list"
  | is_Connect: Connect string nat
  | is_Open_fd: Open_fd nat
  | is_Close_fd: Close_fd int
  | is_Block_signals: Block_signals "nat list"
  | is_Restore_signals: Restore_signals "nat set" "errno option"
  | is_Spawn: Spawn string "string list" "string list"
  | is_Kill_child: Kill_child nat
  | is_Reap_child: Reap_child nat

record world =
  world_os :: os
  tick :: nat
  trace :: "effect list"

definition ask :: "(os \<Rightarrow> nat \<Rightarrow> 'a) \<Rightarrow> world \<Rightarrow> 'a \<times> world" where
  "ask call w = (call (world_os w) (tick w), w\<lparr>tick := Suc (tick w)\<rparr>)"

definition emit :: "effect \<Rightarrow> world \<Rightarrow> world" where
  "emit e w = w\<lparr>trace := trace w @ [e]\<rparr>"

definition boot :: "os \<Rightarrow> world" where
  "boot sys = \<lparr>world_os = sys, tick = 0, trace = []\<rparr>"

definition evolves :: "(effect \<Rightarrow> bool) \<Rightarrow> world \<Rightarrow> world \<Rightarrow> bool" where
  "evolves P w w' \<longleftrightarrow>
     world_os w' = world_os w \<and> tick w \<le> tick w' \<and> (\<exists>es. trace w' = trace w @ es \<and> list_all P es)"

abbreviation is_log_or_notify :: "effect \<Rightarrow> bool" where
  "is_log_or_notify e \<equiv> is_Stderr e \<or> is_Notify_send e"

lemma fst_ask [simp]: "fst (ask c w) = c (world_os w) (tick w)"
  and snd_ask [simp]: "snd (ask c w) = w\<lparr>tick := Suc (tick w)\<rparr>"
  by (simp_all add: ask_def)

lemma world_os_emit [simp]: "world_os (emit e w) = world_os w"
  and tick_emit [simp]: "tick (emit e w) = tick w"
  and trace_emit [simp]: "trace (emit e w) = trace w @ [e]"
  by (simp_all add: emit_def)

lemma boot_simps [simp]: "world_os (boot sys) = sys" "tick (boot sys) = 0" "trace (boot sys) = []"
  by (simp_all add: boot_def)

subsection \<open>Laws of \<open>evolves\<close>\<close>

lemma evolves_refl [simp, intro!]: "evolves P w w"
  by (simp add: evolves_def)

lemma evolves_trans [trans]:
  assumes "evolves P u v" and "evolves P v w"
  shows "evolves P u w"
proof -
  from assms obtain es fs where "trace v = trace u @ es" "list_all P es"
    and "trace w = trace v @ fs" "list_all P fs"
    by (auto simp: evolves_def)
  then have "trace w = trace u @ (es @ fs)" and "list_all P (es @ fs)"
    by simp_all
  with assms show ?thesis
    unfolding evolves_def by (metis le_trans)
qed

lemma evolves_weaken: "evolves P w w' \<Longrightarrow> (\<And>e. P e \<Longrightarrow> Q e) \<Longrightarrow> evolves Q w w'"
  unfolding evolves_def by (auto simp: list_all_iff)

lemma evolves_emit [intro!]: "evolves P w v \<Longrightarrow> P e \<Longrightarrow> evolves P w (emit e v)"
  by (auto simp: evolves_def emit_def)

lemma evolves_tick [intro!]: "evolves P w v \<Longrightarrow> tick v \<le> n \<Longrightarrow> evolves P w (v\<lparr>tick := n\<rparr>)"
  by (auto simp: evolves_def)

lemma evolves_ask [intro]: "evolves P w v \<Longrightarrow> ask c v = (a, v') \<Longrightarrow> evolves P w v'"
  by (auto simp: ask_def)

lemma evolves_os: "evolves P w w' \<Longrightarrow> world_os w' = world_os w"
  by (simp add: evolves_def)

lemma evolves_prefix: "evolves P w w' \<Longrightarrow> prefix (trace w) (trace w')"
  by (auto simp: evolves_def)

lemma evolves_list_all:
  "evolves P w w' \<Longrightarrow> list_all P (trace w) \<Longrightarrow> list_all P (trace w')"
  by (auto simp: evolves_def)

lemma evolves_filter:
  "evolves P w w' \<Longrightarrow> (\<And>e. P e \<Longrightarrow> \<not> Q e) \<Longrightarrow> filter Q (trace w') = filter Q (trace w)"
  by (auto simp: evolves_def list_all_iff filter_empty_conv)

section \<open>The signal mask\<close>

text \<open>The set of blocked signals, from the calls in the trace. A \<^verbatim>\<open>SIG_BLOCK\<close> that succeeded
  (only such a call is an effect) adds its signals, without the two that cannot be blocked
  (\<^verbatim>\<open>SIGKILL\<close>, \<^verbatim>\<open>SIGSTOP\<close>). \<open>Restore_signals m r\<close> is a
  \<^verbatim>\<open>SIG_SETMASK\<close> call with the mask \<open>m\<close> and the answer \<open>r\<close>: it changes the mask only when
  the kernel accepted it.\<close>

definition UNBLOCKABLE :: "nat set" where "UNBLOCKABLE = {9, 19}"

fun mask_after :: "nat set \<Rightarrow> effect \<Rightarrow> nat set" where
  "mask_after m (Block_signals s) = m \<union> (set s - UNBLOCKABLE)"
| "mask_after m (Restore_signals m' None) = m'"
| "mask_after m _ = m"

definition signal_mask :: "world \<Rightarrow> nat set" where
  "signal_mask w = foldl mask_after (os_sigmask (world_os w)) (trace w)"

lemma mask_after_other: "\<not> is_Block_signals e \<Longrightarrow> \<not> is_Restore_signals e \<Longrightarrow> mask_after m e = m"
  by (cases e) simp_all

lemma signal_mask_simps [simp]:
  "signal_mask (emit e w) = mask_after (signal_mask w) e" "signal_mask (w\<lparr>tick := n\<rparr>) = signal_mask w"
  "signal_mask (boot sys) = os_sigmask sys"
  by (simp_all add: signal_mask_def)

lemma signal_mask_evolves:
  assumes "evolves P w w'" "\<And>e. P e \<Longrightarrow> \<not> is_Block_signals e \<and> \<not> is_Restore_signals e"
  shows "signal_mask w' = signal_mask w"
proof -
  obtain es where es: "trace w' = trace w @ es" "list_all P es" "world_os w' = world_os w"
    using assms(1) by (auto simp: evolves_def)
  have "foldl mask_after m es = m" for m
    using es(2) assms(2) by (induction es arbitrary: m) (auto simp: mask_after_other)
  then show ?thesis by (simp add: signal_mask_def es)
qed

section \<open>A sample system\<close>

text \<open>A concrete system for evaluating the model: no environment, the clocks stand at one hour
  (\<open>3600 s\<close>), every socket call succeeds with descriptor 5, nothing ever arrives, \<^verbatim>\<open>poll\<close>
  times out, and the child of a spawn exits with status 0 at once. IPv4 text is accepted when it is
  \<open>1.1.1.1\<close>.\<close>

definition sample_os :: os where
  "sample_os =
     \<lparr>os_getenv = (\<lambda>_. None), os_getpid = 4242, os_strerror = (\<lambda>_. ''error''), os_big_endian = False,
      os_sigmask = {},
      os_inet_pton = (\<lambda>f s. if f = AF_INET \<and> s = ''1.1.1.1'' then Some [1, 1, 1, 1] else None),
      os_access_x = (\<lambda>_. True), os_is_dir = (\<lambda>_. True),
      os_clock_coarse = (\<lambda>_. Some \<lparr>tv_sec = 3600, tv_nsec = 0\<rparr>),
      os_clock_mono = (\<lambda>_. Some \<lparr>tv_sec = 3600, tv_nsec = 0\<rparr>),
      os_socket = (\<lambda>_. Inr 5), os_setsockopt = (\<lambda>_. None), os_connect = (\<lambda>_. None),
      os_send = (\<lambda>_. Completed (Inr 7)), os_sendto = (\<lambda>_. Completed (Inr 64)),
      os_recvfrom = (\<lambda>_. Inl EAGAIN), os_sigprocmask = (\<lambda>_. None), os_signalfd = (\<lambda>_. Inr 6),
      os_sigread = (\<lambda>_. Some 15), os_poll = (\<lambda>_ _. Inr []), os_file_actions = (\<lambda>_. None),
      os_spawn = (\<lambda>_. Inr 77), os_child = (\<lambda>_. Wait_status (WIFEXITED 0)),
      os_reap = (\<lambda>_. Completed (Inr 77))\<rparr>"

lemma sample_os_simps [simp]:
  "os_getenv sample_os v = None" "os_getpid sample_os = 4242" "os_strerror sample_os e = ''error''"
  "os_big_endian sample_os = False" "os_sigmask sample_os = {}" "os_inet_pton sample_os AF_INET ''1.1.1.1'' = Some [1, 1, 1, 1]"
  "os_access_x sample_os s = True" "os_is_dir sample_os s = True"
  "os_clock_coarse sample_os n = Some \<lparr>tv_sec = 3600, tv_nsec = 0\<rparr>"
  "os_clock_mono sample_os n = Some \<lparr>tv_sec = 3600, tv_nsec = 0\<rparr>"
  "os_socket sample_os n = Inr 5" "os_setsockopt sample_os n = None" "os_connect sample_os n = None"
  "os_send sample_os n = Completed (Inr 7)" "os_sendto sample_os n = Completed (Inr 64)"
  "os_recvfrom sample_os n = Inl EAGAIN" "os_sigprocmask sample_os n = None"
  "os_signalfd sample_os n = Inr 6" "os_sigread sample_os n = Some 15" "os_poll sample_os n t = Inr []"
  "os_file_actions sample_os n = None" "os_spawn sample_os n = Inr 77"
  "os_child sample_os n = Wait_status (WIFEXITED 0)" "os_reap sample_os n = Completed (Inr 77)"
  by (simp_all add: sample_os_def)

lemma AF_distinct [simp]: "AF_INET \<noteq> AF_INET6" "AF_INET6 \<noteq> AF_INET"
  by (simp_all add: AF_INET_def AF_INET6_def)

end
