(* ===== verification/LS_Double.thy ===== *)
theory LS_Double
  imports LS_Prelude "HOL-Library.Log_Nat"
begin

text \<open>
  The \<^verbatim>\<open>double\<close> arithmetic of the latency and success-rate figures. A \<^verbatim>\<open>double\<close> is
  the rational number it denotes; every operation of the program is the exact operation
  followed by \<open>rnd64\<close>, rounding to 53 significant bits, ties to even (the default mode of
  IEEE 754 binary64). The figures of the daemon are zero or lie between $2^{-65}$ and $2^{65}$,
  so the limits of the exponent range play no role and are left out.

  \<open>monotone_rounding\<close> is what the clients need of a rounding function: it is monotone and
  exact on the integers below $2^{53}$. The interpretation \<open>b64\<close> at the end discharges these
  laws for \<open>rnd64\<close>.
\<close>

section \<open>Rounding to 53 bits\<close>

type_synonym double = rat

definition round_even :: "rat \<Rightarrow> int" where
  "round_even y =
     (let f = \<lfloor>y\<rfloor>; d = y - of_int f
      in if d < 1 / 2 then f else if 1 / 2 < d then f + 1 else if even f then f else f + 1)"

text \<open>The exponent \<open>e\<close> with \<open>2 powi e \<le> x < 2 powi (e + 1)\<close>.\<close>

definition double_exp :: "rat \<Rightarrow> int" where
  "double_exp x =
     (let (p, q) = quotient_of x; k = int (floorlog 2 (nat p)) - int (floorlog 2 (nat q))
      in if 2 powi k \<le> x then k else k - 1)"

definition rnd_pos :: "rat \<Rightarrow> rat" where
  "rnd_pos x = (let u = 2 powi (double_exp x - 52) in of_int (round_even (x / u)) * u)"

definition rnd64 :: "rat \<Rightarrow> rat" where
  "rnd64 x = (if x = 0 then 0 else if 0 < x then rnd_pos x else - rnd_pos (- x))"

definition u64_to_double :: "u64 \<Rightarrow> double" where
  "u64_to_double x = rnd64 (of_nat (unat x))"

definition dmul :: "double \<Rightarrow> double \<Rightarrow> double" where
  "dmul a b = rnd64 (a * b)"

text \<open>Division by zero has no finite result (it is a NaN or an infinity, which are no values of this
  model): it is left unspecified, so nothing can be shown of a figure that the code does not guard.\<close>

definition ddiv :: "double \<Rightarrow> double \<Rightarrow> double" where
  "ddiv a b = (if b = 0 then undefined else rnd64 (a / b))"

text \<open>The cast \<^verbatim>\<open>(uint64_t)x\<close> discards the fraction; it is defined for
  \<open>0 \<le> x < 2 ^ 64\<close>, which is where the program uses it.\<close>

definition double_to_u64 :: "double \<Rightarrow> u64" where
  "double_to_u64 x = word_of_int \<lfloor>x\<rfloor>"

text \<open>\<^verbatim>\<open>%.<k>f\<close> of a non-negative value: the nearest multiple of \<open>10 ^ - k\<close>.\<close>

fun pad_digits :: "nat \<Rightarrow> nat \<Rightarrow> string" where
  "pad_digits 0 n = []"
| "pad_digits (Suc k) n = pad_digits k (n div 10) @ [digit_char (n mod 10)]"

definition show_fixed :: "nat \<Rightarrow> double \<Rightarrow> string" where
  "show_fixed k x =
     (let r = nat (round_even (x * 10 ^ k))
      in show_nat (r div 10 ^ k) @ ''.'' @ pad_digits k (r mod 10 ^ k))"

section \<open>What clients need of rounding\<close>

locale monotone_rounding =
  fixes rnd :: "rat \<Rightarrow> rat"
  assumes rnd_mono: "x \<le> y \<Longrightarrow> rnd x \<le> rnd y"
    and rnd_nat: "n < 2 ^ 53 \<Longrightarrow> rnd (of_nat n) = of_nat n"
begin

lemma rnd_zero: "rnd 0 = 0"
  using rnd_nat [of 0] by simp

lemma rnd_nonneg: "0 \<le> x \<Longrightarrow> 0 \<le> rnd x"
  using rnd_mono [of 0 x] by (simp add: rnd_zero)

lemma rnd_ge_nat: "n < 2 ^ 53 \<Longrightarrow> of_nat n \<le> x \<Longrightarrow> of_nat n \<le> rnd x"
  using rnd_mono [of "of_nat n" x] by (simp add: rnd_nat)

lemma rnd_le_nat: "n < 2 ^ 53 \<Longrightarrow> x \<le> of_nat n \<Longrightarrow> rnd x \<le> of_nat n"
  using rnd_mono [of x "of_nat n"] by (simp add: rnd_nat)

text \<open>A rounded mean of \<open>n\<close> samples lies between the bounds of the samples.\<close>

lemma rnd_mean_ge:
  assumes "0 < n" "n < 2 ^ 53" "s < 2 ^ 53" "lo * n \<le> s"
  shows "rnd (of_nat lo) \<le> rnd (rnd (of_nat s) / rnd (of_nat n))"
proof -
  have "of_nat lo \<le> (of_nat s / of_nat n :: rat)"
    using assms(1,4) by (simp add: field_simps flip: of_nat_mult)
  then show ?thesis
    using assms(2,3) by (simp add: rnd_nat rnd_mono)
qed

lemma rnd_mean_le:
  assumes "0 < n" "n < 2 ^ 53" "s < 2 ^ 53" "s \<le> hi * n"
  shows "rnd (rnd (of_nat s) / rnd (of_nat n)) \<le> rnd (of_nat hi)"
proof -
  have "(of_nat s / of_nat n :: rat) \<le> of_nat hi"
    using assms(1,4) by (simp add: field_simps flip: of_nat_mult)
  then show ?thesis
    using assms(2,3) by (simp add: rnd_nat rnd_mono)
qed

end

section \<open>Binary64 satisfies the contract\<close>

lemma round_even_of_int [simp]: "round_even (of_int i) = i"
  by (simp add: round_even_def)

lemma round_even_bounds: "\<lfloor>y\<rfloor> \<le> round_even y" "round_even y \<le> \<lfloor>y\<rfloor> + 1"
  by (simp_all add: round_even_def Let_def)

lemma round_even_mono: "x \<le> y \<Longrightarrow> round_even x \<le> round_even y"
proof -
  assume le: "x \<le> y"
  then have fl: "\<lfloor>x\<rfloor> \<le> \<lfloor>y\<rfloor>"
    by (rule floor_mono)
  show ?thesis
  proof (cases "\<lfloor>x\<rfloor> = \<lfloor>y\<rfloor>")
    case True
    with le show ?thesis by (simp add: round_even_def Let_def)
  next
    case False
    with fl have "\<lfloor>x\<rfloor> + 1 \<le> \<lfloor>y\<rfloor>" by simp
    with round_even_bounds show ?thesis by (meson order_trans)
  qed
qed

lemma round_even_le_int: "y \<le> of_int i \<Longrightarrow> round_even y \<le> i"
  using round_even_mono [of y "of_int i"] by simp

lemma round_even_ge_int: "of_int i \<le> y \<Longrightarrow> i \<le> round_even y"
  using round_even_mono [of "of_int i" y] by simp

lemma floorlog_bounds_rat:
  assumes "0 < (n :: nat)"
  shows "2 powi (int (floorlog 2 n) - 1) \<le> (of_nat n :: rat)" "of_nat n < (2 powi int (floorlog 2 n) :: rat)"
proof -
  have b: "2 ^ (floorlog 2 n - 1) \<le> n \<and> n < 2 ^ floorlog 2 n"
    using assms floorlog_bounds [of n 2] by simp
  have pos: "0 < floorlog 2 n"
    using assms by (simp add: floorlog_def)
  have "(2 :: rat) powi (int (floorlog 2 n) - 1) = of_nat (2 ^ (floorlog 2 n - 1))"
    using pos by (simp add: power_int_def nat_diff_distrib flip: of_nat_diff)
  with b show "2 powi (int (floorlog 2 n) - 1) \<le> (of_nat n :: rat)"
    by (simp only: of_nat_le_iff)
  have "(2 :: rat) powi int (floorlog 2 n) = of_nat (2 ^ floorlog 2 n)"
    by (simp add: power_int_def)
  with b show "of_nat n < (2 powi int (floorlog 2 n) :: rat)"
    by (simp only: of_nat_less_iff)
qed

lemma double_exp_bounds:
  assumes "0 < x"
  shows "2 powi double_exp x \<le> x" "x < 2 powi (double_exp x + 1)"
proof -
  obtain p q where pq: "quotient_of x = (p, q)" by force
  have x: "x = of_int p / of_int q" and q: "0 < q"
    using quotient_of_div [OF pq] quotient_of_denom_pos [OF pq] by auto
  with assms have p: "0 < p" by (simp add: zero_less_divide_iff)
  define a b where "a = int (floorlog 2 (nat p))" and "b = int (floorlog 2 (nat q))"
  have P: "2 powi (a - 1) \<le> (of_int p :: rat)" "of_int p < (2 powi a :: rat)"
    using floorlog_bounds_rat [of "nat p"] p by (simp_all add: a_def)
  have Q: "2 powi (b - 1) \<le> (of_int q :: rat)" "of_int q < (2 powi b :: rat)"
    using floorlog_bounds_rat [of "nat q"] q by (simp_all add: b_def)
  have "2 powi (a - b - 1) = (2 powi (a - 1) / 2 powi b :: rat)"
    by (simp flip: power_int_diff add: algebra_simps)
  also have "\<dots> \<le> x"
    unfolding x using P(1) Q(2) p q by (intro frac_le) auto
  finally have lo: "2 powi (a - b - 1) \<le> x" .
  have "x < (2 powi a / 2 powi (b - 1) :: rat)"
    unfolding x using P(2) Q(1) p by (intro frac_less) auto
  also have "\<dots> = 2 powi (a - b + 1)"
    by (simp flip: power_int_diff add: algebra_simps)
  finally have hi: "x < 2 powi (a - b + 1)" .
  have "double_exp x = (if 2 powi (a - b) \<le> x then a - b else a - b - 1)"
    by (simp add: double_exp_def pq a_def b_def)
  with lo hi show "2 powi double_exp x \<le> x" "x < 2 powi (double_exp x + 1)"
    by (auto split: if_splits)
qed

lemma double_exp_mono:
  assumes "0 < x" "x \<le> y"
  shows "double_exp x \<le> double_exp y"
proof (rule ccontr)
  assume "\<not> ?thesis"
  then have "(2 :: rat) powi (double_exp y + 1) \<le> 2 powi double_exp x"
    by (intro power_int_increasing) auto
  also have "\<dots> \<le> x" using assms by (intro double_exp_bounds)
  also have "\<dots> \<le> y" by fact
  also have "\<dots> < 2 powi (double_exp y + 1)" using assms by (intro double_exp_bounds) simp
  finally show False by simp
qed

lemma powi_52_53: "(2 :: rat) powi e = of_int (2 ^ 52) * 2 powi (e - 52)"
  "(2 :: rat) powi (e + 1) = of_int (2 ^ 53) * 2 powi (e - 52)"
proof -
  have "(2 :: rat) powi e = 2 powi (52 + (e - 52))" by simp
  also have "\<dots> = 2 powi 52 * 2 powi (e - 52)" by (rule power_int_add) simp
  finally show a: "(2 :: rat) powi e = of_int (2 ^ 52) * 2 powi (e - 52)"
    by (simp add: power_int_def)
  show "(2 :: rat) powi (e + 1) = of_int (2 ^ 53) * 2 powi (e - 52)"
    by (subst power_int_add) (simp_all add: a)
qed

lemma rnd_pos_bounds:
  assumes "0 < x"
  shows "2 powi double_exp x \<le> rnd_pos x" "rnd_pos x \<le> 2 powi (double_exp x + 1)"
proof -
  define u :: rat where "u = 2 powi (double_exp x - 52)"
  have u: "0 < u" by (simp add: u_def)
  have "of_int (2 ^ 52) \<le> x / u" "x / u \<le> of_int (2 ^ 53)"
    using double_exp_bounds [OF assms] powi_52_53 [of "double_exp x"] u
    by (simp_all add: u_def field_simps)
  then have "2 ^ 52 \<le> round_even (x / u)" "round_even (x / u) \<le> 2 ^ 53"
    by (simp_all add: round_even_le_int round_even_ge_int del: of_int_power)
  then have "of_int (2 ^ 52) * u \<le> rnd_pos x" "rnd_pos x \<le> of_int (2 ^ 53) * u"
    using u by (simp_all add: rnd_pos_def Let_def flip: u_def del: of_int_power)
  then show "2 powi double_exp x \<le> rnd_pos x" "rnd_pos x \<le> 2 powi (double_exp x + 1)"
    using powi_52_53 [of "double_exp x"] by (simp_all add: u_def)
qed

lemma rnd_pos_mono:
  assumes "0 < x" "x \<le> y"
  shows "rnd_pos x \<le> rnd_pos y"
proof (cases "double_exp x = double_exp y")
  case True
  with assms(2) show ?thesis
    by (simp add: rnd_pos_def Let_def round_even_mono divide_right_mono)
next
  case False
  with double_exp_mono [OF assms] have "(2 :: rat) powi (double_exp x + 1) \<le> 2 powi double_exp y"
    by (intro power_int_increasing) auto
  with rnd_pos_bounds(2) [OF assms(1)] rnd_pos_bounds(1) [of y] assms show ?thesis
    by linarith
qed

lemma rnd_pos_nat:
  assumes "0 < n" "n < 2 ^ 53"
  shows "rnd_pos (of_nat n) = of_nat n"
proof -
  define e where "e = double_exp (of_nat n)"
  have "e < 53"
  proof (rule ccontr)
    assume "\<not> e < 53"
    then have "(2 :: rat) powi 53 \<le> 2 powi e" by (intro power_int_increasing) auto
    also have "\<dots> \<le> of_nat n" using assms(1) double_exp_bounds(1) [of "of_nat n"] by (simp add: e_def)
    also have "\<dots> < of_nat (2 ^ 53)" using assms(2) by (simp only: of_nat_less_iff)
    finally show False by (simp add: power_int_def)
  qed
  then have neg: "e - 52 = - int (nat (52 - e))" by simp
  define k where "k = nat (52 - e)"
  have u: "(2 :: rat) powi (e - 52) = 1 / 2 ^ k"
    unfolding neg k_def by (simp only: power_int_minus power_int_of_nat) (simp add: divide_inverse)
  have "(of_nat n :: rat) / (1 / 2 ^ k) = of_int (int n * 2 ^ k)"
    by simp
  then have "round_even (of_nat n / (1 / 2 ^ k)) = int n * 2 ^ k"
    by (simp only: round_even_of_int)
  then have "rnd_pos (of_nat n) = of_int (int n * 2 ^ k) * (1 / 2 ^ k)"
    unfolding rnd_pos_def Let_def e_def [symmetric] u by (simp only:)
  then show ?thesis
    by simp
qed

lemma rnd64_mono: "x \<le> y \<Longrightarrow> rnd64 x \<le> rnd64 y"
proof -
  assume le: "x \<le> y"
  have pos: "0 < rnd_pos z" if "0 < z" for z
    using rnd_pos_bounds(1) [OF that] by (rule less_le_trans [rotated]) simp
  consider "0 < x" | "y < 0" | "x \<le> 0" "0 \<le> y"
    by linarith
  then show ?thesis
  proof cases
    case 1
    with le show ?thesis by (simp add: rnd64_def rnd_pos_mono)
  next
    case 2
    with le show ?thesis by (simp add: rnd64_def rnd_pos_mono)
  next
    case 3
    then show ?thesis
      using pos [of "- x"] pos [of y] by (auto simp: rnd64_def intro: order_trans)
  qed
qed

lemma rnd64_nat: "n < 2 ^ 53 \<Longrightarrow> rnd64 (of_nat n) = of_nat n"
  by (cases "n = 0") (simp_all add: rnd64_def rnd_pos_nat)

interpretation b64: monotone_rounding rnd64
  by unfold_locales (rule rnd64_mono, assumption, rule rnd64_nat, assumption)

text \<open>Rounding at most doubles a value, at any magnitude.\<close>

lemma rnd64_le_twice:
  assumes "0 \<le> x"
  shows "rnd64 x \<le> 2 * x"
proof (cases "x = 0")
  case True
  then show ?thesis by (simp add: rnd64_def)
next
  case False
  with assms have x: "0 < x" by simp
  have "rnd_pos x \<le> 2 powi (double_exp x + 1)"
    using x by (rule rnd_pos_bounds)
  also have "\<dots> = 2 * 2 powi double_exp x"
    by (simp add: power_int_add)
  also have "\<dots> \<le> 2 * x"
    using double_exp_bounds(1) [OF x] by simp
  finally show ?thesis
    using x by (simp add: rnd64_def)
qed

lemma u64_to_double_nonneg [simp]: "0 \<le> u64_to_double x"
  unfolding u64_to_double_def by (rule b64.rnd_nonneg) (rule of_nat_0_le_iff)

lemma u64_to_double_mono: "x \<le> y \<Longrightarrow> u64_to_double x \<le> u64_to_double y"
  unfolding u64_to_double_def word_le_nat_alt by (intro rnd64_mono) (simp only: of_nat_le_iff)

lemma u64_to_double_exact: "unat x < 2 ^ 53 \<Longrightarrow> u64_to_double x = of_nat (unat x)"
  unfolding u64_to_double_def by (rule rnd64_nat)

lemma u64_to_double_bound: "u64_to_double x < 2 ^ 65"
proof -
  have "u64_to_double x \<le> 2 * of_nat (unat x)"
    unfolding u64_to_double_def by (rule rnd64_le_twice) (rule of_nat_0_le_iff)
  also have "\<dots> < 2 * of_nat (2 ^ 64)"
    using unat_lt_UINT64 [of x] by (simp only: of_nat_less_iff mult_less_cancel_left_pos) simp
  finally show ?thesis by simp
qed

lemma rnd64_pos: "0 < x \<Longrightarrow> 0 < rnd64 x"
  using less_le_trans [OF _ rnd_pos_bounds(1) [of x], of 0] by (simp add: rnd64_def)

lemma u64_to_double_pos: "x \<noteq> 0 \<Longrightarrow> 0 < u64_to_double x"
  unfolding u64_to_double_def by (rule rnd64_pos) (simp only: of_nat_0_less_iff unat_gt_0 not_False_eq_True)

lemma ddiv_nonneg: "0 \<le> a \<Longrightarrow> 0 < c \<Longrightarrow> 0 \<le> ddiv a c"
  unfolding ddiv_def by (simp add: b64.rnd_nonneg)

lemma ddiv_pos: "0 < a \<Longrightarrow> 0 < c \<Longrightarrow> 0 < ddiv a c"
  by (simp add: ddiv_def rnd64_pos)

lemma dmul_nonneg: "0 \<le> a \<Longrightarrow> 0 \<le> c \<Longrightarrow> 0 \<le> dmul a c"
  unfolding dmul_def by (rule b64.rnd_nonneg) simp

lemma ddiv_mono: "a \<le> b \<Longrightarrow> 0 < c \<Longrightarrow> ddiv a c \<le> ddiv b c"
  by (simp add: ddiv_def rnd64_mono divide_right_mono)

lemma ddiv_le_one:
  assumes "0 \<le> a" "a \<le> b" "0 < b"
  shows "ddiv a b \<le> 1"
proof -
  have "a / b \<le> of_nat 1"
    using assms by (simp add: divide_le_eq)
  then have "rnd64 (a / b) \<le> of_nat 1"
    by (rule b64.rnd_le_nat [rotated]) simp
  then show ?thesis using assms(3) by (simp add: ddiv_def)
qed

lemma ddiv_zero: "0 < a \<Longrightarrow> ddiv 0 a = 0"
  by (simp add: ddiv_def rnd64_def)

lemma ddiv_self: "0 < a \<Longrightarrow> ddiv a a = 1"
  using rnd64_nat [of 1] by (simp add: ddiv_def)

end
