(* ===== verification/LS_Base.thy ===== *)
theory LS_Base
  imports LS_Os LS_Double
begin

text \<open>
  \<^verbatim>\<open>src/base.h\<close> and \<^verbatim>\<open>src/base.c\<close>: unit constants, exit codes, the error
  text, the monotonic clock, the saturating operations and the three duration formatters.

  A C function that reports failure through \<^verbatim>\<open>ls_err_t\<close> and \<^verbatim>\<open>false\<close>
  returns a sum here, with the (truncated) message on the left; \<^verbatim>\<open>return ls_err_set(...)\<close>
  is \<open>ls_err_set ...\<close>.
\<close>

section \<open>Constants\<close>

definition LS_NS_PER_MS :: u64 where "LS_NS_PER_MS = 1000000"
definition LS_NS_PER_SEC :: u64 where "LS_NS_PER_SEC = 1000000000"
definition LS_US_PER_MS :: u64 where "LS_US_PER_MS = 1000"
definition LS_MS_PER_SEC :: u64 where "LS_MS_PER_SEC = 1000"
definition LS_EXIT_SUCCESS :: int where "LS_EXIT_SUCCESS = 0"
definition LS_EXIT_FAILURE :: int where "LS_EXIT_FAILURE = 1"
definition LS_SYSTEMCTL_PATH :: string where "LS_SYSTEMCTL_PATH = ''/usr/bin/systemctl''"
definition LS_VERSION :: string where "LS_VERSION = ''1.0''"
definition LS_PROGRAM_NAME :: string where "LS_PROGRAM_NAME = ''linkstay''"

lemma exit_codes [simp]: "LS_EXIT_SUCCESS \<noteq> LS_EXIT_FAILURE" "LS_EXIT_FAILURE \<noteq> LS_EXIT_SUCCESS"
  by (simp_all add: LS_EXIT_SUCCESS_def LS_EXIT_FAILURE_def)

lemma unat_units [simp, word_nat]:
  "unat LS_NS_PER_MS = 1000000" "unat LS_NS_PER_SEC = 1000000000"
  "unat LS_US_PER_MS = 1000" "unat LS_MS_PER_SEC = 1000"
  by (simp_all add: LS_NS_PER_MS_def LS_NS_PER_SEC_def LS_US_PER_MS_def LS_MS_PER_SEC_def)

section \<open>Errors\<close>

type_synonym ls_err_t = string

definition ls_err_set :: "string \<Rightarrow> ls_err_t + 'a" where
  "ls_err_set text = Inl (c_snprintf 256 text)"

lemma ls_err_set_not_Inr [simp]: "ls_err_set m \<noteq> Inr a" "Inr a \<noteq> ls_err_set m"
  by (simp_all add: ls_err_set_def)

lemma ls_err_set_case [simp]: "case_sum f g (ls_err_set m) = f (c_snprintf 256 m)"
  by (simp add: ls_err_set_def)

section \<open>Saturating arithmetic\<close>

definition ls_add_sat :: "u64 \<Rightarrow> u64 \<Rightarrow> u64" where
  "ls_add_sat a b = (if b > UINT64_MAX - a then UINT64_MAX else a + b)"

definition ls_mul_sat :: "u64 \<Rightarrow> u64 \<Rightarrow> u64" where
  "ls_mul_sat a b = (if b \<noteq> 0 \<and> a > UINT64_MAX div b then UINT64_MAX else a * b)"

lemma unat_ls_add_sat [word_nat]:
  "unat (ls_add_sat a b) = min (unat a + unat b) (unat UINT64_MAX)"
proof -
  have d: "unat (UINT64_MAX - a) = 18446744073709551615 - unat a"
    by (simp add: unat_u64_diff)
  have a: "unat a \<le> 18446744073709551615"
    by (rule unat_le_UINT64)
  show ?thesis
  proof (cases "b > UINT64_MAX - a")
    case True
    then have "18446744073709551615 < unat a + unat b"
      using a by (simp add: word_less_nat_alt d)
    with True show ?thesis by (simp add: ls_add_sat_def)
  next
    case False
    then have "unat a + unat b \<le> 18446744073709551615"
      using a by (simp add: word_less_nat_alt d)
    with False show ?thesis by (simp add: ls_add_sat_def unat_u64_add)
  qed
qed

lemma unat_ls_mul_sat [word_nat]:
  "unat (ls_mul_sat a b) = min (unat a * unat b) (unat UINT64_MAX)"
proof (cases "b = 0")
  case True
  then show ?thesis by (simp add: ls_mul_sat_def)
next
  case False
  then have b: "0 < unat b" by (simp add: unat_gt_0)
  have "a > UINT64_MAX div b \<longleftrightarrow> \<not> unat a \<le> unat UINT64_MAX div unat b"
    by (simp only: word_less_nat_alt unat_div not_le)
  also have "\<dots> \<longleftrightarrow> \<not> unat a * unat b \<le> unat UINT64_MAX"
    by (simp only: less_eq_div_iff_mult_less_eq [OF b])
  finally have iff: "a > UINT64_MAX div b \<longleftrightarrow> \<not> unat a * unat b \<le> unat UINT64_MAX" .
  show ?thesis
  proof (cases "a > UINT64_MAX div b")
    case True
    with False iff show ?thesis by (simp add: ls_mul_sat_def)
  next
    case small: False
    with iff have "unat a * unat b \<le> 18446744073709551615" by simp
    with small show ?thesis by (simp add: ls_mul_sat_def unat_u64_mult)
  qed
qed

lemma ls_add_sat_ge: "a \<le> ls_add_sat a b"
  using unat_le_UINT64 [of a] by (simp add: word_le_nat_alt unat_ls_add_sat)

lemma ls_add_sat_eq_MAX:
  "ls_add_sat a b = UINT64_MAX \<longleftrightarrow> unat a + unat b \<ge> 18446744073709551615"
  by (simp add: u64_eq_UINT64_MAX unat_ls_add_sat min_def)

section \<open>Monotonic clock\<close>

definition timespec_ms :: "timespec \<Rightarrow> u64" where
  "timespec_ms ts =
     ls_add_sat (word_of_int (tv_sec ts) * LS_MS_PER_SEC) (word_of_int (tv_nsec ts) div LS_NS_PER_MS)"

definition ls_now_ms :: "world \<Rightarrow> u64 \<times> world" where
  "ls_now_ms w =
     (let (r, w) = ask os_clock_coarse w
      in case r of None \<Rightarrow> (UINT64_MAX, w) | Some ts \<Rightarrow> (timespec_ms ts, w))"

definition timespec_ns :: "timespec \<Rightarrow> u64" where
  "timespec_ns ts =
     ls_add_sat (word_of_int (tv_sec ts) * LS_NS_PER_SEC) (word_of_int (tv_nsec ts))"

definition ls_now_ns :: "world \<Rightarrow> u64 \<times> world" where
  "ls_now_ns w =
     (let (r, w) = ask os_clock_mono w
      in case r of None \<Rightarrow> (UINT64_MAX, w) | Some ts \<Rightarrow> (timespec_ns ts, w))"

lemma snd_ls_now_ms [simp, frame]: "snd (ls_now_ms w) = w\<lparr>tick := Suc (tick w)\<rparr>"
  by (simp add: ls_now_ms_def ask_def split: option.split)

lemma snd_ls_now_ns [simp, frame]: "snd (ls_now_ns w) = w\<lparr>tick := Suc (tick w)\<rparr>"
  by (simp add: ls_now_ns_def ask_def split: option.split)

lemma ls_now_ms_D: "ls_now_ms w = (t, w') \<Longrightarrow> w' = w\<lparr>tick := Suc (tick w)\<rparr>"
  by (metis snd_conv snd_ls_now_ms)

lemma ls_now_ns_D: "ls_now_ns w = (t, w') \<Longrightarrow> w' = w\<lparr>tick := Suc (tick w)\<rparr>"
  by (metis snd_conv snd_ls_now_ns)

text \<open>The value that reading number \<open>n\<close> of the coarse clock gives to \<^verbatim>\<open>ls_now_ms\<close>.\<close>

definition coarse_ms :: "os \<Rightarrow> nat \<Rightarrow> u64" where
  "coarse_ms sys n = (case os_clock_coarse sys n of None \<Rightarrow> UINT64_MAX | Some ts \<Rightarrow> timespec_ms ts)"

lemma ls_now_ms_coarse: "ls_now_ms w = (coarse_ms (world_os w) (tick w), w\<lparr>tick := Suc (tick w)\<rparr>)"
  by (simp add: ls_now_ms_def ask_def coarse_ms_def split: option.split)

text \<open>A reading of the kernel clock in normal form.\<close>

definition timespec_ok :: "timespec \<Rightarrow> bool" where
  "timespec_ok ts \<longleftrightarrow> 0 \<le> tv_sec ts \<and> tv_sec ts < 18446744073709551 \<and> 0 \<le> tv_nsec ts \<and> tv_nsec ts < 1000000000"

lemma unat_timespec_ms:
  assumes "timespec_ok ts"
  shows "unat (timespec_ms ts) = nat (tv_sec ts) * 1000 + nat (tv_nsec ts) div 1000000"
proof -
  have s: "unat (word_of_int (tv_sec ts) :: u64) = nat (tv_sec ts)"
    and n: "unat (word_of_int (tv_nsec ts) :: u64) = nat (tv_nsec ts)"
    using assms by (simp_all add: timespec_ok_def unat_eq_nat_uint uint_word_of_int)
  have "nat (tv_sec ts) * 1000 + nat (tv_nsec ts) div 1000000 < 18446744073709551615"
    using assms unfolding timespec_ok_def by auto
  then show ?thesis
    by (simp add: timespec_ms_def unat_ls_add_sat unat_u64_mult unat_div s n)
qed

section \<open>Duration formatting\<close>

definition ls_format_duration :: "u64 \<Rightarrow> nat \<Rightarrow> string" where
  "ls_format_duration ms n =
     (if ms \<ge> LS_MS_PER_SEC \<and> ms mod LS_MS_PER_SEC = 0
      then c_snprintf n (show_u64 (ms div LS_MS_PER_SEC) @ ''s'')
      else c_snprintf n (show_u64 ms @ ''ms''))"

definition ls_format_latency :: "double \<Rightarrow> nat \<Rightarrow> string" where
  "ls_format_latency ms n =
     (let ms = (if ms < 0 then 0 else ms)
      in if ms < 1 then c_snprintf n (show_fixed 3 ms @ ''ms'')
         else if ms < 100 then c_snprintf n (show_fixed 2 ms @ ''ms'')
         else c_snprintf n (show_fixed 1 ms @ ''ms''))"

definition ls_format_uptime :: "u64 \<Rightarrow> nat \<Rightarrow> string" where
  "ls_format_uptime seconds n =
     (let days = seconds div 86400;
          hours = seconds div 3600 mod 24;
          minutes = seconds div 60 mod 60;
          secs = seconds mod 60
      in if days > 0
         then c_snprintf n (show_u64 days @ ''d'' @ show_u64 hours @ ''h'' @ show_u64 minutes @ ''m'' @
                show_u64 secs @ ''s'')
         else if hours > 0
         then c_snprintf n (show_u64 hours @ ''h'' @ show_u64 minutes @ ''m'' @ show_u64 secs @ ''s'')
         else if minutes > 0 then c_snprintf n (show_u64 minutes @ ''m'' @ show_u64 secs @ ''s'')
         else c_snprintf n (show_u64 secs @ ''s''))"

lemma length_show_unat_le: "unat x < 10 ^ k \<Longrightarrow> 0 < k \<Longrightarrow> length (show_u64 x) \<le> k"
  unfolding show_u64_def by (rule length_show_nat_le)

text \<open>The formatters never truncate in the 32-byte buffers of their callers.\<close>

lemma ls_format_duration_exact:
  "ls_format_duration ms 32 =
     (if ms \<ge> LS_MS_PER_SEC \<and> ms mod LS_MS_PER_SEC = 0
      then show_u64 (ms div LS_MS_PER_SEC) @ ''s'' else show_u64 ms @ ''ms'')"
  using length_show_u64_le [of ms] length_show_u64_le [of "ms div LS_MS_PER_SEC"]
  by (auto simp: ls_format_duration_def)

lemma ls_format_duration_length [text_simps]: "length (ls_format_duration ms 32) \<le> 22"
  using length_show_u64_le [of ms] length_show_u64_le [of "ms div LS_MS_PER_SEC"]
  by (auto simp: ls_format_duration_exact)

text \<open>Reading a d/h/m/s text back: \<open>cur\<close> is the number being read.\<close>

definition unit_seconds :: "char \<Rightarrow> nat" where
  "unit_seconds c =
     (if c = CHR ''d'' then 86400 else if c = CHR ''h'' then 3600 else if c = CHR ''m'' then 60 else 1)"

fun read_uptime :: "nat \<Rightarrow> string \<Rightarrow> nat" where
  "read_uptime cur [] = 0"
| "read_uptime cur (c # cs) =
     (if is_digit c then read_uptime (10 * cur + digit_value c) cs
      else cur * unit_seconds c + read_uptime 0 cs)"

lemma read_uptime_digits:
  "list_all is_digit ds \<Longrightarrow>
   read_uptime cur (ds @ rest) = read_uptime (foldl (\<lambda>acc c. 10 * acc + digit_value c) cur ds) rest"
  by (induction ds arbitrary: cur) auto

lemma read_uptime_show [simp]: "read_uptime 0 (show_nat n @ rest) = read_uptime n rest"
  using read_uptime_digits [OF show_nat_digits [of n], of 0 rest] read_show_nat [of n]
  by (simp add: read_nat_def)

lemma read_uptime_unit [simp]:
  "\<not> is_digit c \<Longrightarrow> read_uptime cur (c # cs) = cur * unit_seconds c + read_uptime 0 cs"
  by simp

lemma unit_chars_not_digit [simp]:
  "\<not> is_digit CHR ''d''" "\<not> is_digit CHR ''h''" "\<not> is_digit CHR ''m''" "\<not> is_digit CHR ''s''"
  by (simp_all add: is_digit_def)

lemma unit_seconds_simps [simp]:
  "unit_seconds CHR ''d'' = 86400" "unit_seconds CHR ''h'' = 3600"
  "unit_seconds CHR ''m'' = 60" "unit_seconds CHR ''s'' = 1"
  by (simp_all add: unit_seconds_def)

lemma unat_uptime_parts:
  fixes s :: u64
  shows "unat (s div 86400) = unat s div 86400" "unat (s div 3600 mod 24) = unat s div 3600 mod 24"
    "unat (s div 60 mod 60) = unat s div 60 mod 60" "unat (s mod 60) = unat s mod 60"
  by (simp_all add: unat_div unat_mod)

lemma uptime_decomposition:
  fixes n :: nat
  shows "n div 86400 * 86400 + (n div 3600 mod 24 * 3600 + (n div 60 mod 60 * 60 + n mod 60)) = n"
proof -
  have "n = n div 60 * 60 + n mod 60" and "n div 60 = n div 3600 * 60 + n div 60 mod 60"
    and "n div 3600 = n div 86400 * 24 + n div 3600 mod 24"
    using div_mult_mod_eq [of n 60] div_mult_mod_eq [of "n div 60" 60]
      div_mult_mod_eq [of "n div 3600" 24]
    by (simp_all flip: div_mult2_eq)
  then show ?thesis
    by linarith
qed

lemma uptime_text_short:
  fixes s :: u64
  shows "length (show_u64 (s div 86400)) \<le> 15" "length (show_u64 (s div 3600 mod 24)) \<le> 2"
    "length (show_u64 (s div 60 mod 60)) \<le> 2" "length (show_u64 (s mod 60)) \<le> 2"
proof -
  have "unat s div 86400 \<le> 18446744073709551615 div 86400"
    by (rule div_le_mono) (rule unat_le_UINT64)
  then have "unat s div 86400 < 10 ^ 15"
    by simp
  then show "length (show_u64 (s div 86400)) \<le> 15"
    by (intro length_show_unat_le) (simp_all add: unat_uptime_parts)
  have small: "unat s div 3600 mod 24 < 24" "unat s div 60 mod 60 < 60" "unat s mod 60 < 60"
    by simp_all
  show "length (show_u64 (s div 3600 mod 24)) \<le> 2" "length (show_u64 (s div 60 mod 60)) \<le> 2"
    "length (show_u64 (s mod 60)) \<le> 2"
    by (intro length_show_unat_le; simp add: unat_uptime_parts; use small in linarith)+
qed

lemma ls_format_uptime_exact:
  "ls_format_uptime s 32 =
     (if s div 86400 > 0
      then show_u64 (s div 86400) @ ''d'' @ show_u64 (s div 3600 mod 24) @ ''h'' @
        show_u64 (s div 60 mod 60) @ ''m'' @ show_u64 (s mod 60) @ ''s''
      else if s div 3600 mod 24 > 0
      then show_u64 (s div 3600 mod 24) @ ''h'' @ show_u64 (s div 60 mod 60) @ ''m'' @
        show_u64 (s mod 60) @ ''s''
      else if s div 60 mod 60 > 0 then show_u64 (s div 60 mod 60) @ ''m'' @ show_u64 (s mod 60) @ ''s''
      else show_u64 (s mod 60) @ ''s'')"
  using uptime_text_short [of s] by (auto simp: ls_format_uptime_def Let_def)

lemma u64_gt_0: "0 < (x :: u64) \<longleftrightarrow> 0 < unat x"
  by (simp add: word_less_nat_alt)

lemma read_uptime_text:
  assumes "d * 86400 + (h * 3600 + (m * 60 + sec)) = n"
  shows "read_uptime 0
    (if 0 < d then show_nat d @ ''d'' @ show_nat h @ ''h'' @ show_nat m @ ''m'' @ show_nat sec @ ''s''
     else if 0 < h then show_nat h @ ''h'' @ show_nat m @ ''m'' @ show_nat sec @ ''s''
     else if 0 < m then show_nat m @ ''m'' @ show_nat sec @ ''s''
     else show_nat sec @ ''s'') = n"
  using assms by auto

lemma read_format_uptime: "read_uptime 0 (ls_format_uptime s 32) = unat s"
  unfolding ls_format_uptime_exact show_u64_def u64_gt_0 unat_uptime_parts
  by (rule read_uptime_text) (simp only: unat_div unat_numeral, simp add: uptime_decomposition)

subsection \<open>Accuracy of the latency text\<close>

definition latency_decimals :: "double \<Rightarrow> nat" where
  "latency_decimals ms = (if ms < 1 then 3 else if ms < 100 then 2 else 1)"

lemma foldl_pad_digits:
  "foldl (\<lambda>acc c. 10 * acc + digit_value c) a (pad_digits k n) = a * 10 ^ k + n mod 10 ^ k"
  by (induction k arbitrary: n) (simp_all add: algebra_simps mod_mult2_eq)

lemma pad_digits_digits: "list_all is_digit (pad_digits k n)"
  by (induction k arbitrary: n) simp_all

lemma length_pad_digits [text_simps, simp]: "length (pad_digits k n) = k"
  by (induction k arbitrary: n) simp_all

lemma filter_all_digits: "list_all is_digit ds \<Longrightarrow> filter is_digit ds = ds"
  by (simp add: list_all_iff)

lemma read_show_fixed:
  "read_nat (filter is_digit (show_fixed k x @ ''ms'')) = nat (round_even (x * 10 ^ k))"
proof -
  let ?r = "nat (round_even (x * 10 ^ k))"
  have "filter is_digit (show_fixed k x @ ''ms'') = show_nat (?r div 10 ^ k) @ pad_digits k (?r mod 10 ^ k)"
    by (simp add: show_fixed_def Let_def filter_all_digits show_nat_digits pad_digits_digits is_digit_def)
  moreover have "read_nat \<dots> = ?r div 10 ^ k * 10 ^ k + ?r mod 10 ^ k"
    using read_show_nat [of "?r div 10 ^ k"] by (simp add: read_nat_def foldl_pad_digits)
  ultimately show ?thesis by (simp only: div_mult_mod_eq)
qed

lemma round_even_close: "\<bar>of_int (round_even y) - y\<bar> \<le> 1 / 2"
  by (auto simp: round_even_def Let_def abs_if not_less; linarith)

lemma length_show_fixed:
  assumes "0 \<le> x" "x < 2 ^ 64" "k \<le> 3"
  shows "length (show_fixed k x) \<le> 21 + k"
proof -
  have "round_even (x * 10 ^ k) \<le> 2 ^ 64 * 10 ^ k"
    by (rule round_even_le_int) (use assms in \<open>simp add: mult_right_mono\<close>)
  then have "nat (round_even (x * 10 ^ k)) \<le> 2 ^ 64 * 10 ^ k"
    by (simp add: nat_le_iff)
  then have "nat (round_even (x * 10 ^ k)) div 10 ^ k \<le> 2 ^ 64"
    using div_le_mono [of _ "2 ^ 64 * 10 ^ k" "10 ^ k :: nat"] by simp
  then have "nat (round_even (x * 10 ^ k)) div 10 ^ k < 10 ^ 20"
    by (rule le_less_trans) simp
  then have "length (show_nat (nat (round_even (x * 10 ^ k)) div 10 ^ k)) \<le> 20"
    by (rule length_show_nat_le) simp
  then show ?thesis
    by (simp add: show_fixed_def Let_def)
qed

lemma ls_format_latency_exact:
  assumes "0 \<le> ms" "ms < 2 ^ 64"
  shows "ls_format_latency ms 32 = show_fixed (latency_decimals ms) ms @ ''ms''"
proof -
  have "length (show_fixed k ms @ ''ms'') < 32" if "k \<le> 3" for k
    using length_show_fixed [OF assms that] that by simp
  then show ?thesis
    using assms(1) by (simp add: ls_format_latency_def latency_decimals_def Let_def)
qed

section \<open>Properties\<close>

text \<open>C26: \<^verbatim>\<open>ls_add_sat\<close> and \<^verbatim>\<open>ls_mul_sat\<close> compute the exact sum and product,
  capped at \<^verbatim>\<open>UINT64_MAX\<close>: the guards against wrap-around are neither too weak nor too
  strong.\<close>
theorem saturating_exact:
  "unat (ls_add_sat a b) = min (unat a + unat b) (2 ^ 64 - 1) \<and>
   unat (ls_mul_sat a b) = min (unat a * unat b) (2 ^ 64 - 1)"
  by (simp add: unat_ls_add_sat unat_ls_mul_sat)

text \<open>The uptime text is exact: read back as days, hours, minutes and seconds it gives the
  number of seconds it was made from, for every 64-bit count, and a caller's 32-byte buffer never
  truncates it.\<close>
lemma uptime_roundtrip:
  "read_uptime 0 (ls_format_uptime s 32) = unat s \<and> length (ls_format_uptime s 32) \<le> 25"
  using uptime_text_short [of s] by (simp add: read_format_uptime, simp add: ls_format_uptime_exact)

text \<open>C27: A latency is printed to the nearest unit of its last decimal: the digits of the text
  are within half a unit of the value, with three decimals below 1 ms, two below 100 ms and one
  above, for every latency a 64-bit nanosecond count can produce.\<close>
theorem latency_text_accuracy:
  assumes "0 \<le> ms" "ms < 2 ^ 64"
  shows "\<bar>of_nat (read_nat (filter is_digit (ls_format_latency ms 32))) -
           ms * 10 ^ latency_decimals ms\<bar> \<le> 1 / 2"
proof -
  let ?y = "ms * 10 ^ latency_decimals ms"
  have "0 \<le> round_even ?y"
    by (rule round_even_ge_int) (use assms in simp)
  moreover have "read_nat (filter is_digit (ls_format_latency ms 32)) = nat (round_even ?y)"
    by (simp only: ls_format_latency_exact [OF assms] read_show_fixed)
  ultimately show ?thesis
    using round_even_close [of ?y] by simp
qed

theorem latency_text_accuracy_witness:
  "\<bar>of_nat (read_nat (filter is_digit (ls_format_latency (85 / 2) 32))) -
     (85 / 2) * 10 ^ latency_decimals (85 / 2)\<bar> \<le> (1 / 2 :: rat)"
  by (rule latency_text_accuracy) simp_all

text \<open>A reading of the coarse clock in kernel normal form becomes the exact number of whole
  milliseconds and never collides with \<^verbatim>\<open>UINT64_MAX\<close>, the value \<^verbatim>\<open>ls_now_ms\<close>
  reserves for a failed clock.\<close>
lemma clock_ms_exact:
  assumes "os_clock_coarse (world_os w) (tick w) = Some ts" "timespec_ok ts"
  shows "unat (fst (ls_now_ms w)) = nat (tv_sec ts) * 1000 + nat (tv_nsec ts) div 1000000 \<and>
    fst (ls_now_ms w) \<noteq> UINT64_MAX"
proof -
  have f: "fst (ls_now_ms w) = timespec_ms ts"
    using assms(1) by (simp add: ls_now_ms_def ask_def)
  have "nat (tv_sec ts) * 1000 + nat (tv_nsec ts) div 1000000 < 18446744073709551615"
    using assms(2) unfolding timespec_ok_def by auto
  with unat_timespec_ms [OF assms(2)] show ?thesis
    by (simp add: f not_UINT64_MAX_iff)
qed

end
