(* ===== verification/LS_Log.thy ===== *)
theory LS_Log
  imports LS_Base
begin

text \<open>
  \<^verbatim>\<open>src/log.h\<close> and \<^verbatim>\<open>src/log.c\<close>: leveled logging to stderr. A log line is one
  \<open>Stderr\<close> effect. The log and format pointers of the C functions are never null in the program;
  the model takes them as references.
\<close>

section \<open>Levels\<close>

datatype ls_log_level_t = LS_LOG_SILENT | LS_LOG_ERROR | LS_LOG_WARN | LS_LOG_INFO | LS_LOG_DEBUG

text \<open>The enumerator's value, and the order of the C enum.\<close>

primrec level_value :: "ls_log_level_t \<Rightarrow> int" where
  "level_value LS_LOG_SILENT = -1"
| "level_value LS_LOG_ERROR = 0"
| "level_value LS_LOG_WARN = 1"
| "level_value LS_LOG_INFO = 2"
| "level_value LS_LOG_DEBUG = 3"

lemma level_value_inject [simp]: "level_value a = level_value b \<longleftrightarrow> a = b"
  by (cases a; cases b) simp_all

instantiation ls_log_level_t :: linorder
begin

definition less_eq_ls_log_level_t :: "ls_log_level_t \<Rightarrow> ls_log_level_t \<Rightarrow> bool" where
  "a \<le> b \<longleftrightarrow> level_value a \<le> level_value b"

definition less_ls_log_level_t :: "ls_log_level_t \<Rightarrow> ls_log_level_t \<Rightarrow> bool" where
  "a < b \<longleftrightarrow> level_value a < level_value b"

instance
  by standard (auto simp: less_eq_ls_log_level_t_def less_ls_log_level_t_def)

end

record ls_log_t =
  ls_level :: ls_log_level_t

definition LEVEL_NAMES :: "string list" where
  "LEVEL_NAMES = [''SILENT'', ''ERROR'', ''WARN'', ''INFO'', ''DEBUG'']"

definition ls_log_level_name :: "int \<Rightarrow> string" where
  "ls_log_level_name lvl =
     (let index = lvl - level_value LS_LOG_SILENT
      in if index < 0 \<or> nat index \<ge> length LEVEL_NAMES then ''UNKNOWN'' else LEVEL_NAMES ! nat index)"

definition LS_LOG_BUFFER_SIZE :: nat where
  "LS_LOG_BUFFER_SIZE = 2048"

section \<open>Writing a line\<close>

definition ls_log_init :: "ls_log_level_t \<Rightarrow> ls_log_t" where
  "ls_log_init lvl = \<lparr>ls_level = lvl\<rparr>"

definition ls_log_va :: "ls_log_t \<Rightarrow> ls_log_level_t \<Rightarrow> string \<Rightarrow> world \<Rightarrow> world" where
  "ls_log_va lg lvl text w =
     (if ls_level lg = LS_LOG_SILENT \<or> lvl > ls_level lg then w
      else let message = c_snprintf LS_LOG_BUFFER_SIZE text
           in emit (Stderr (''['' @ ls_log_level_name (level_value lvl) @ ''] '' @ message @ [CHR 0x0A])) w)"

text \<open>\<^verbatim>\<open>LS_DEFINE_LOGGER\<close> and its four instances.\<close>

definition ls_logger :: "ls_log_level_t \<Rightarrow> ls_log_t \<Rightarrow> string \<Rightarrow> world \<Rightarrow> world" where
  "ls_logger lvl lg text w = (if ls_level lg \<ge> lvl then ls_log_va lg lvl text w else w)"

definition ls_error :: "ls_log_t \<Rightarrow> string \<Rightarrow> world \<Rightarrow> world" where
  "ls_error = ls_logger LS_LOG_ERROR"

definition ls_warn :: "ls_log_t \<Rightarrow> string \<Rightarrow> world \<Rightarrow> world" where
  "ls_warn = ls_logger LS_LOG_WARN"

definition ls_info :: "ls_log_t \<Rightarrow> string \<Rightarrow> world \<Rightarrow> world" where
  "ls_info = ls_logger LS_LOG_INFO"

definition ls_debug :: "ls_log_t \<Rightarrow> string \<Rightarrow> world \<Rightarrow> world" where
  "ls_debug = ls_logger LS_LOG_DEBUG"

lemmas logger_defs = ls_error_def ls_warn_def ls_info_def ls_debug_def

section \<open>Frame\<close>

lemma ls_log_va_evolves: "evolves P u w \<Longrightarrow> (\<And>t. P (Stderr t)) \<Longrightarrow> evolves P u (ls_log_va lg lvl text w)"
  by (auto simp: ls_log_va_def Let_def)

text \<open>Logging adds lines to the trace and nothing else.\<close>

lemma log_evolves [frame, intro!]:
  assumes "evolves P u w" and "\<And>t. P (Stderr t)"
  shows "evolves P u (ls_error lg text w)" "evolves P u (ls_warn lg text w)"
    "evolves P u (ls_info lg text w)" "evolves P u (ls_debug lg text w)"
  using assms by (simp_all add: logger_defs ls_logger_def ls_log_va_evolves)

lemma log_world [simp]:
  "world_os (ls_error lg text w) = world_os w" "world_os (ls_warn lg text w) = world_os w"
  "world_os (ls_info lg text w) = world_os w" "world_os (ls_debug lg text w) = world_os w"
  "tick (ls_error lg text w) = tick w" "tick (ls_warn lg text w) = tick w"
  "tick (ls_info lg text w) = tick w" "tick (ls_debug lg text w) = tick w"
  by (simp_all add: logger_defs ls_logger_def ls_log_va_def Let_def)

section \<open>Properties\<close>

text \<open>C25: A logger writes exactly one line, tagged with the name of its level and cut to the
  2047 characters that fit the buffer, when the configured level admits it, and nothing otherwise;
  at level \<^verbatim>\<open>SILENT\<close> no logger of the program ever writes. The second test inside
  \<^verbatim>\<open>ls_log_va\<close> therefore never disagrees with the test at the call site.\<close>
theorem log_line_exact:
  "trace (ls_logger lvl lg text w) =
     trace w @ (if lvl \<le> ls_level lg \<and> ls_level lg \<noteq> LS_LOG_SILENT
       then [Stderr (''['' @ LEVEL_NAMES ! nat (level_value lvl + 1) @ ''] '' @ take 2047 text @ [CHR 0x0A])]
       else [])"
  by (cases lvl)
    (auto simp: ls_logger_def ls_log_va_def ls_log_level_name_def LEVEL_NAMES_def Let_def c_snprintf_def
      LS_LOG_BUFFER_SIZE_def)

end
