(* ===== verification/LS_Addr.thy ===== *)
theory LS_Addr
  imports LS_Base
begin

text \<open>
  \<^verbatim>\<open>src/addr.h\<close> and \<^verbatim>\<open>src/addr.c\<close>: IPv4 and IPv6 literals. The text conversion
  itself is the C library's \<^verbatim>\<open>inet_pton\<close>, an answer of the system. The out-parameters
  \<^verbatim>\<open>addr\<close> and \<^verbatim>\<open>addr_len\<close> are the result; \<open>None\<close> as text is the null pointer.
\<close>

definition sizeof_sockaddr_in :: nat where "sizeof_sockaddr_in = 16"
definition sizeof_sockaddr_in6 :: nat where "sizeof_sockaddr_in6 = 28"

definition zero_sockaddr :: sockaddr_storage where
  "zero_sockaddr = \<lparr>ss_family = 0, sin_addr = replicate 4 0, sin6_addr = replicate 16 0\<rparr>"

definition ls_addr_parse :: "os \<Rightarrow> string option \<Rightarrow> ls_err_t + (sockaddr_storage \<times> nat)" where
  "ls_addr_parse sys text =
     (case text of
        None \<Rightarrow> ls_err_set ''Invalid address parse arguments''
      | Some text \<Rightarrow>
          (case os_inet_pton sys AF_INET text of
             Some a \<Rightarrow> Inr (zero_sockaddr\<lparr>sin_addr := a, ss_family := AF_INET\<rparr>, sizeof_sockaddr_in)
           | None \<Rightarrow>
               (case os_inet_pton sys AF_INET6 text of
                  Some a \<Rightarrow> Inr (zero_sockaddr\<lparr>sin6_addr := a, ss_family := AF_INET6\<rparr>, sizeof_sockaddr_in6)
                | None \<Rightarrow>
                    (let hint = (if CHR '':'' \<in> set text
                                 then '' (looks like an IPv6 literal but parsing failed)''
                                 else if CHR ''.'' \<in> set text
                                 then '' (looks like an IPv4 literal but parsing failed)''
                                 else '''')
                     in ls_err_set (''Invalid IPv4/IPv6 address (DNS disabled): '' @ text @ hint)))))"

definition ls_addr_is_literal :: "os \<Rightarrow> string option \<Rightarrow> bool" where
  "ls_addr_is_literal sys text = (case ls_addr_parse sys text of Inl _ \<Rightarrow> False | Inr _ \<Rightarrow> True)"

lemma ls_addr_parse_Inr:
  assumes "ls_addr_parse sys text = Inr (a, len)"
  shows "ss_family a = AF_INET \<or> ss_family a = AF_INET6"
    and "len = (if ss_family a = AF_INET then sizeof_sockaddr_in else sizeof_sockaddr_in6)"
  using assms
  by (auto simp: ls_addr_parse_def Let_def AF_INET_def AF_INET6_def split: option.splits)

lemma ls_addr_parse_is_literal:
  "ls_addr_is_literal sys text \<longleftrightarrow> (\<exists>a len. ls_addr_parse sys text = Inr (a, len))"
  by (auto simp: ls_addr_is_literal_def split: sum.splits)

section \<open>Exact behaviour\<close>

text \<open>A target is accepted exactly when \<^verbatim>\<open>inet_pton\<close> accepts it as IPv4 or IPv6, IPv4
  first; on success the family and the address length agree and the address bytes are those
  \<^verbatim>\<open>inet_pton\<close> produced. Nothing else (no host name) is ever resolved.\<close>
lemma addr_parse_exact:
  "ls_addr_parse sys (Some text) = Inr (a, len) \<longleftrightarrow>
     (\<exists>bytes. os_inet_pton sys AF_INET text = Some bytes \<and>
        a = zero_sockaddr\<lparr>sin_addr := bytes, ss_family := AF_INET\<rparr> \<and> len = 16) \<or>
     (\<exists>bytes. os_inet_pton sys AF_INET text = None \<and> os_inet_pton sys AF_INET6 text = Some bytes \<and>
        a = zero_sockaddr\<lparr>sin6_addr := bytes, ss_family := AF_INET6\<rparr> \<and> len = 28)"
  by (auto simp: ls_addr_parse_def Let_def sizeof_sockaddr_in_def sizeof_sockaddr_in6_def
      split: option.splits)

end
