(* ===== verification/LS_Config.thy ===== *)
theory LS_Config
  imports LS_Log LS_Addr
begin

text \<open>
  \<^verbatim>\<open>src/config.h\<close> and \<^verbatim>\<open>src/config.c\<close>: defaults, the environment table, the
  appliers and the cross-field validation. A value argument \<open>None\<close> is the null pointer. An
  applier of the C code writes through a pointer to one field of the configuration; here the
  value parsers return the parsed value and the typed adapters store it.
\<close>

section \<open>Configuration\<close>

record ls_config_t =
  target :: string
  interval_ms :: u64
  fail_threshold :: int
  timeout_ms :: u64
  start_delay_ms :: u64
  poweroff :: bool
  log_level :: ls_log_level_t

definition LS_DEFAULT_TARGET :: string where "LS_DEFAULT_TARGET = ''1.1.1.1''"
definition LS_DEFAULT_INTERVAL_MS :: u64 where "LS_DEFAULT_INTERVAL_MS = 10000"
definition LS_DEFAULT_FAIL_THRESHOLD :: int where "LS_DEFAULT_FAIL_THRESHOLD = 5"
definition LS_DEFAULT_TIMEOUT_MS :: u64 where "LS_DEFAULT_TIMEOUT_MS = 3000"
definition LS_DEFAULT_START_DELAY_MS :: u64 where "LS_DEFAULT_START_DELAY_MS = 0"
definition LS_DEFAULT_POWEROFF :: bool where "LS_DEFAULT_POWEROFF = False"

lemmas default_defs = LS_DEFAULT_TARGET_def LS_DEFAULT_INTERVAL_MS_def LS_DEFAULT_FAIL_THRESHOLD_def
  LS_DEFAULT_TIMEOUT_MS_def LS_DEFAULT_START_DELAY_MS_def LS_DEFAULT_POWEROFF_def

definition LS_BOOL_VALUES :: string where
  "LS_BOOL_VALUES = ''true|false''"

definition LS_LOG_LEVEL_VALUES :: string where
  "LS_LOG_LEVEL_VALUES = ''silent|error|warn|info|debug''"

definition LS_SYSTEMD_RUNTIME_DIR :: string where
  "LS_SYSTEMD_RUNTIME_DIR = ''/run/systemd/system''"

definition LOG_LEVEL_NAMES :: "(string \<times> ls_log_level_t) list" where
  "LOG_LEVEL_NAMES =
     [(''silent'', LS_LOG_SILENT), (''error'', LS_LOG_ERROR), (''warn'', LS_LOG_WARN),
      (''info'', LS_LOG_INFO), (''debug'', LS_LOG_DEBUG)]"

definition display :: "string option \<Rightarrow> string" where
  "display value = (case value of Some v \<Rightarrow> v | None \<Rightarrow> ''<empty>'')"

definition invalid_value :: "string \<Rightarrow> string option \<Rightarrow> string \<Rightarrow> ls_err_t + 'a" where
  "invalid_value name value allowed =
     ls_err_set (''Invalid value for '' @ name @ '': '' @ display value @ '' (use '' @ allowed @ '')'')"

type_synonym apply_fn_t = "string \<Rightarrow> string option \<Rightarrow> ls_config_t \<Rightarrow> ls_err_t + ls_config_t"

section \<open>Value parsers\<close>

definition apply_string :: "string \<Rightarrow> string option \<Rightarrow> nat \<Rightarrow> ls_err_t + string" where
  "apply_string name value n =
     (case value of
        None \<Rightarrow> invalid_value name value ''a string''
      | Some v \<Rightarrow>
          (if length v \<ge> n
           then ls_err_set (name @ '' is too long (max '' @ show_nat (n - 1) @ '' characters)'')
           else Inr (c_snprintf n v)))"

definition has_unsigned_shape :: "string option \<Rightarrow> bool" where
  "has_unsigned_shape value = (case value of Some (c # _) \<Rightarrow> is_digit c | _ \<Rightarrow> False)"

definition apply_positive_int :: "string \<Rightarrow> string option \<Rightarrow> string \<Rightarrow> ls_err_t + int" where
  "apply_positive_int name value unit_name =
     (if \<not> has_unsigned_shape value then invalid_value name value ''a positive integer''
      else let (parsed, rest, err) = c_strtoull (the value)
           in if err \<or> rest \<noteq> [] \<or> parsed < 1 \<or> uint parsed > INT_MAX
              then ls_err_set (''Invalid value for '' @ name @ '': '' @ the value @ '' (range 1..'' @
                     show_int INT_MAX @ '' '' @ unit_name @ '')'')
              else Inr (uint parsed))"

definition apply_bool :: "string \<Rightarrow> string option \<Rightarrow> ls_err_t + bool" where
  "apply_bool name value =
     (case value of
        None \<Rightarrow> invalid_value name value LS_BOOL_VALUES
      | Some v \<Rightarrow>
          (if strcase_eq v ''true'' then Inr True
           else if strcase_eq v ''false'' then Inr False
           else invalid_value name value LS_BOOL_VALUES))"

definition invalid_duration :: "string \<Rightarrow> string \<Rightarrow> ls_err_t + 'a" where
  "invalid_duration name shown =
     ls_err_set (''Invalid value for '' @ name @ '': '' @ shown @
       '' (use a positive integer suffixed 's' or 'ms')'')"

text \<open>\<^verbatim>\<open>ckd_mul\<close>: the wrapped product and whether it overflowed.\<close>

definition ckd_mul :: "u64 \<Rightarrow> u64 \<Rightarrow> u64 \<times> bool" where
  "ckd_mul a b = (a * b, unat a * unat b > unat UINT64_MAX)"

definition apply_duration :: "string \<Rightarrow> string option \<Rightarrow> bool \<Rightarrow> u64 \<Rightarrow> ls_err_t + u64" where
  "apply_duration name value allow_zero max_ms =
     (let shown = display value
      in if \<not> has_unsigned_shape value then invalid_duration name shown
         else let (parsed, rest, err) = c_strtoull (the value)
              in if err \<or> parsed = 0 \<and> \<not> allow_zero then invalid_duration name shown
                 else case (if rest = ''s'' then Some LS_MS_PER_SEC
                            else if rest = ''ms'' then Some 1 else None) of
                        None \<Rightarrow> invalid_duration name shown
                      | Some unit_ms \<Rightarrow>
                          (let (result_ms, over) = ckd_mul parsed unit_ms
                           in if over
                              then ls_err_set (''Invalid value for '' @ name @ '': '' @ shown @ '' (too large)'')
                              else if result_ms = 0 \<and> \<not> allow_zero \<or> result_ms > max_ms
                              then ls_err_set (''Invalid value for '' @ name @ '': '' @ shown @
                                     '' (range 1..'' @ show_u64 max_ms @ '' ms)'')
                              else Inr result_ms))"

fun find_level :: "string \<Rightarrow> (string \<times> ls_log_level_t) list \<Rightarrow> ls_log_level_t option" where
  "find_level v [] = None"
| "find_level v ((n, l) # rest) = (if strcase_eq v n then Some l else find_level v rest)"

definition apply_log_level :: "string \<Rightarrow> string option \<Rightarrow> ls_err_t + ls_log_level_t" where
  "apply_log_level name value =
     (case value of
        None \<Rightarrow> invalid_value name value LS_LOG_LEVEL_VALUES
      | Some v \<Rightarrow>
          (case find_level v LOG_LEVEL_NAMES of
             Some l \<Rightarrow> Inr l
           | None \<Rightarrow> invalid_value name value LS_LOG_LEVEL_VALUES))"

section \<open>Typed adapters and the environment table\<close>

definition store :: "('a \<Rightarrow> ls_config_t \<Rightarrow> ls_config_t) \<Rightarrow> ls_err_t + 'a \<Rightarrow> ls_config_t \<Rightarrow> ls_err_t + ls_config_t" where
  "store upd r c = (case r of Inl e \<Rightarrow> Inl e | Inr v \<Rightarrow> Inr (upd v c))"

definition apply_target :: apply_fn_t where
  "apply_target name value = store (\<lambda>v c. c\<lparr>target := v\<rparr>) (apply_string name value 64)"

definition apply_interval :: apply_fn_t where
  "apply_interval name value =
     store (\<lambda>v c. c\<lparr>interval_ms := v\<rparr>)
       (apply_duration name value False (word_of_int INT_MAX * LS_MS_PER_SEC))"

definition apply_threshold :: apply_fn_t where
  "apply_threshold name value =
     store (\<lambda>v c. c\<lparr>fail_threshold := v\<rparr>) (apply_positive_int name value ''failures'')"

definition apply_timeout :: apply_fn_t where
  "apply_timeout name value =
     store (\<lambda>v c. c\<lparr>timeout_ms := v\<rparr>) (apply_duration name value False (word_of_int INT_MAX))"

definition apply_start_delay :: apply_fn_t where
  "apply_start_delay name value =
     store (\<lambda>v c. c\<lparr>start_delay_ms := v\<rparr>) (apply_duration name value True (word_of_int INT_MAX))"

definition apply_poweroff :: apply_fn_t where
  "apply_poweroff name value = store (\<lambda>v c. c\<lparr>poweroff := v\<rparr>) (apply_bool name value)"

definition apply_level :: apply_fn_t where
  "apply_level name value = store (\<lambda>v c. c\<lparr>log_level := v\<rparr>) (apply_log_level name value)"

type_synonym env_spec_t = "string \<times> apply_fn_t"

definition ENV_SPECS :: "env_spec_t list" where
  "ENV_SPECS =
     [(''LINKSTAY_TARGET'', apply_target), (''LINKSTAY_INTERVAL'', apply_interval),
      (''LINKSTAY_THRESHOLD'', apply_threshold), (''LINKSTAY_TIMEOUT'', apply_timeout),
      (''LINKSTAY_START_DELAY'', apply_start_delay), (''LINKSTAY_POWEROFF'', apply_poweroff),
      (''LINKSTAY_LOG_LEVEL'', apply_level)]"

section \<open>Defaults, environment, validation\<close>

definition load_defaults :: ls_config_t where
  "load_defaults =
     \<lparr>target = LS_DEFAULT_TARGET, interval_ms = LS_DEFAULT_INTERVAL_MS, fail_threshold = LS_DEFAULT_FAIL_THRESHOLD,
      timeout_ms = LS_DEFAULT_TIMEOUT_MS, start_delay_ms = LS_DEFAULT_START_DELAY_MS, poweroff = LS_DEFAULT_POWEROFF,
      log_level = LS_LOG_INFO\<rparr>"

lemma load_defaults_eq:
  "load_defaults =
     \<lparr>target = ''1.1.1.1'', interval_ms = 10000, fail_threshold = 5, timeout_ms = 3000,
      start_delay_ms = 0, poweroff = False, log_level = LS_LOG_INFO\<rparr>"
  by (simp add: load_defaults_def default_defs)

fun load_env_specs :: "os \<Rightarrow> env_spec_t list \<Rightarrow> ls_config_t \<Rightarrow> ls_err_t + ls_config_t" where
  "load_env_specs sys [] c = Inr c"
| "load_env_specs sys ((name, appl) # specs) c =
     (case os_getenv sys name of
        None \<Rightarrow> load_env_specs sys specs c
      | Some v \<Rightarrow>
          (case appl name (Some v) c of Inl e \<Rightarrow> Inl e | Inr c' \<Rightarrow> load_env_specs sys specs c'))"

definition load_env :: "os \<Rightarrow> ls_config_t \<Rightarrow> ls_err_t + ls_config_t" where
  "load_env sys = load_env_specs sys ENV_SPECS"

definition systemd_runtime_available :: "os \<Rightarrow> bool" where
  "systemd_runtime_available sys \<longleftrightarrow>
     os_access_x sys LS_SYSTEMCTL_PATH \<and> os_is_dir sys LS_SYSTEMD_RUNTIME_DIR"

definition validate :: "os \<Rightarrow> ls_config_t \<Rightarrow> ls_err_t + ls_config_t" where
  "validate sys c =
     (if target c = [] then ls_err_set ''Target host cannot be empty''
      else if \<not> ls_addr_is_literal sys (Some (target c))
      then ls_err_set ''Target must be a valid IPv4 or IPv6 address (DNS is disabled)''
      else if timeout_ms c \<ge> interval_ms c
      then ls_err_set (''Timeout ('' @ show_u64 (timeout_ms c) @ '' ms) must be smaller than interval ('' @
             show_u64 (interval_ms c) @ '' ms)'')
      else if poweroff c \<and> \<not> systemd_runtime_available sys
      then ls_err_set (''poweroff requires a systemd host with '' @ LS_SYSTEMCTL_PATH @ '' and '' @
             LS_SYSTEMD_RUNTIME_DIR @ '' available'')
      else Inr c)"

definition ls_config_resolve :: "os \<Rightarrow> ls_err_t + ls_config_t" where
  "ls_config_resolve sys =
     (case load_env sys load_defaults of Inl e \<Rightarrow> Inl e | Inr c \<Rightarrow> validate sys c)"

definition ls_config_dump :: "ls_config_t \<Rightarrow> ls_log_t \<Rightarrow> world \<Rightarrow> world" where
  "ls_config_dump c lg w =
     (let interval_str = ls_format_duration (interval_ms c) 32;
          timeout_str = ls_format_duration (timeout_ms c) 32;
          start_delay_str = ls_format_duration (start_delay_ms c) 32;
          w = ls_debug lg ''Configuration:'' w;
          w = ls_debug lg (''  Target: '' @ target c) w;
          w = ls_debug lg (''  Interval: '' @ interval_str) w;
          w = ls_debug lg (''  Threshold: '' @ show_int (fail_threshold c)) w;
          w = ls_debug lg (''  Timeout: '' @ timeout_str) w;
          w = ls_debug lg (''  Start Delay: '' @ start_delay_str) w;
          w = ls_debug lg (''  Poweroff: '' @ (if poweroff c then ''true'' else ''false'')) w
      in ls_debug lg (''  Log Level: '' @ ls_log_level_name (level_value (log_level c))) w)"

lemma ls_config_dump_evolves [frame, intro!]:
  "evolves P u w \<Longrightarrow> (\<And>t. P (Stderr t)) \<Longrightarrow> evolves P u (ls_config_dump c lg w)"
  unfolding ls_config_dump_def Let_def by (intro log_evolves)

section \<open>What the parsers accept\<close>

lemma has_unsigned_shape_iff: "has_unsigned_shape (Some v) \<longleftrightarrow> v \<noteq> [] \<and> is_digit (hd v)"
  by (cases v) (simp_all add: has_unsigned_shape_def)

lemma strtoull_fits:
  assumes "has_unsigned_shape (Some v)" "read_nat (takeWhile is_digit v) \<le> 18446744073709551615"
  shows "c_strtoull v = (of_nat (read_nat (takeWhile is_digit v)), dropWhile is_digit v, False)"
  using assms c_strtoull_digit by (cases v) (auto simp: has_unsigned_shape_iff Let_def)

lemma strtoull_overflows:
  assumes "has_unsigned_shape (Some v)" "read_nat (takeWhile is_digit v) > 18446744073709551615"
  shows "c_strtoull v = (UINT64_MAX, dropWhile is_digit v, True)"
  using assms c_strtoull_digit by (cases v) (auto simp: has_unsigned_shape_iff Let_def)

lemma digits_prefix:
  assumes "list_all is_digit ds" "rest = [] \<or> \<not> is_digit (hd rest)"
  shows "takeWhile is_digit (ds @ rest) = ds" "dropWhile is_digit (ds @ rest) = rest"
  using assms by (cases rest; auto simp: takeWhile_append dropWhile_append list_all_iff)+

lemma takeWhile_digits: "list_all is_digit (takeWhile is_digit v)"
  by (induction v) auto

text \<open>\<open>duration_text v n u\<close>: the text is a decimal number \<open>n\<close> with a suffix that stands for
  \<open>u\<close> milliseconds.\<close>

definition duration_text :: "string \<Rightarrow> nat \<Rightarrow> nat \<Rightarrow> bool" where
  "duration_text v n u \<longleftrightarrow>
     (\<exists>ds. ds \<noteq> [] \<and> list_all is_digit ds \<and> read_nat ds = n \<and>
        (v = ds @ ''s'' \<and> u = 1000 \<or> v = ds @ ''ms'' \<and> u = 1))"

lemma duration_textD:
  assumes "duration_text v n u"
  shows "has_unsigned_shape (Some v)" "read_nat (takeWhile is_digit v) = n"
    "dropWhile is_digit v = (if u = 1000 then ''s'' else ''ms'')" "u = 1000 \<or> u = 1"
  using assms
  by (auto simp: duration_text_def has_unsigned_shape_iff digits_prefix list_all_iff)

lemma duration_textI:
  assumes "has_unsigned_shape (Some v)" "dropWhile is_digit v = (if u = 1000 then ''s'' else ''ms'')"
    "u = 1000 \<or> u = (1::nat)"
  shows "duration_text v (read_nat (takeWhile is_digit v)) u"
proof -
  have v: "v = takeWhile is_digit v @ dropWhile is_digit v"
    by simp
  have "takeWhile is_digit v \<noteq> []"
    using assms(1) by (cases v) (auto simp: has_unsigned_shape_iff)
  then show ?thesis
    unfolding duration_text_def using assms(2,3) v takeWhile_digits
    by (intro exI [of _ "takeWhile is_digit v"]) (auto split: if_splits)
qed

lemma apply_duration_eval:
  assumes t: "duration_text v n u" and n: "n \<le> 18446744073709551615" and um: "um = of_nat u"
  shows "apply_duration name (Some v) z mx = Inr ms \<longleftrightarrow>
    \<not> ((of_nat n :: u64) = 0 \<and> \<not> z) \<and> \<not> unat (of_nat n :: u64) * unat um > unat UINT64_MAX \<and>
    \<not> (of_nat n * um = 0 \<and> \<not> z \<or> of_nat n * um > mx) \<and> of_nat n * um = ms"
proof -
  note T = duration_textD [OF t]
  have parsed: "c_strtoull v = (of_nat n, if u = 1000 then ''s'' else ''ms'', False)"
    using strtoull_fits [OF T(1)] T(2,3) n by simp
  have unit_ms: "(if (if u = 1000 then ''s'' else ''ms'') = ''s'' then Some LS_MS_PER_SEC
      else if (if u = 1000 then ''s'' else ''ms'') = ''ms'' then Some 1 else None) = Some um"
    using T(4) um by (auto simp: LS_MS_PER_SEC_def)
  show ?thesis
    unfolding apply_duration_def option.sel parsed prod.case unit_ms Let_def ckd_mul_def option.case
    using T(1) by (simp only: invalid_duration_def ls_err_set_not_Inr split: if_split) simp
qed

lemma apply_duration_of_text:
  assumes t: "duration_text v n u"
  shows "apply_duration name (Some v) z mx = Inr ms \<longleftrightarrow>
    unat ms = n * u \<and> n * u \<le> unat mx \<and> (n = 0 \<longrightarrow> z)"
proof -
  note T = duration_textD [OF t]
  have mx: "unat mx \<le> 18446744073709551615" by (rule unat_le_UINT64)
  have u: "0 < u" "n \<le> n * u" using T(4) by auto
  show ?thesis
  proof (cases "n * u \<le> 18446744073709551615")
    case True
    then have n: "unat (of_nat n :: u64) = n" and um: "unat (of_nat u :: u64) = u"
      using u T(4) by (auto intro!: unat_u64_of_nat)
    have prod: "unat (of_nat n * of_nat u :: u64) = n * u"
      using True n um by (simp only: unat_u64_mult) simp
    have "(of_nat n :: u64) = 0 \<longleftrightarrow> n = 0" "(of_nat n * of_nat u :: u64) = 0 \<longleftrightarrow> n = 0"
      "(of_nat n * of_nat u :: u64) > mx \<longleftrightarrow> n * u > unat mx"
      "(of_nat n * of_nat u :: u64) = ms \<longleftrightarrow> unat ms = n * u"
      using prod n u by (simp_all only: word_less_nat_alt word_unat_eq_iff unat_0) auto
    then show ?thesis
      using apply_duration_eval [OF t _ refl, of name z mx ms] True u n um
      by (simp only: unat_UINT64_MAX) auto
  next
    case False
    then have "\<not> n * u \<le> unat mx" using mx by linarith
    moreover have "apply_duration name (Some v) z mx \<noteq> Inr ms"
    proof (cases "n \<le> 18446744073709551615")
      case True
      then have "unat (of_nat n :: u64) = n" "unat (of_nat u :: u64) = u"
        using T(4) by (auto intro!: unat_u64_of_nat)
      with False show ?thesis
        using apply_duration_eval [OF t True refl, of name z mx ms] by simp
    next
      case False
      with strtoull_overflows [OF T(1)] T(1,2) show ?thesis
        by (simp add: apply_duration_def invalid_duration_def)
    qed
    ultimately show ?thesis by blast
  qed
qed

lemma apply_duration_Inr_text:
  assumes "apply_duration name (Some v) z mx = Inr ms"
  shows "\<exists>n u. duration_text v n u"
proof -
  have shape: "has_unsigned_shape (Some v)"
    using assms by (auto simp: apply_duration_def invalid_duration_def Let_def split: if_splits)
  have "\<exists>x e. c_strtoull v = (x, dropWhile is_digit v, e)"
    using strtoull_fits [OF shape] strtoull_overflows [OF shape] not_le by blast
  with assms shape have "dropWhile is_digit v = ''s'' \<or> dropWhile is_digit v = ''ms''"
    by (auto simp: apply_duration_def invalid_duration_def Let_def split: if_splits)
  with duration_textI [OF shape, of 1000] duration_textI [OF shape, of 1] show ?thesis
    by auto
qed

lemma apply_positive_int_iff:
  "apply_positive_int name (Some v) un = Inr k \<longleftrightarrow>
     v \<noteq> [] \<and> list_all is_digit v \<and> k = int (read_nat v) \<and> 1 \<le> k \<and> k \<le> INT_MAX"
proof (cases "has_unsigned_shape (Some v)")
  case False
  then show ?thesis
    by (cases v) (auto simp: apply_positive_int_def invalid_value_def has_unsigned_shape_iff)
next
  case shape: True
  obtain x r e where S: "c_strtoull v = (x, r, e)" "r = dropWhile is_digit v"
    using strtoull_fits [OF shape] strtoull_overflows [OF shape] not_le by blast
  have junk: ?thesis if no: "\<not> list_all is_digit v"
  proof -
    have "r \<noteq> []"
      using no S(2) by (auto simp: dropWhile_eq_Nil_conv list_all_iff)
    with shape no S(1) show ?thesis
      by (simp add: apply_positive_int_def)
  qed
  show ?thesis
  proof (cases "list_all is_digit v")
    case all: True
    then have "takeWhile is_digit v = v" "dropWhile is_digit v = []" "v \<noteq> []"
      using shape by (auto simp: takeWhile_eq_all_conv list_all_iff has_unsigned_shape_iff)
    note V = this
    show ?thesis
    proof (cases "read_nat v \<le> 18446744073709551615")
      case True
      then have n: "uint (of_nat (read_nat v) :: u64) = int (read_nat v)"
        using unat_u64_of_nat [of "read_nat v"] by (simp only: uint_nat)
      have "(of_nat (read_nat v) :: u64) < 1 \<longleftrightarrow> read_nat v < 1"
        using unat_u64_of_nat [of "read_nat v"] True by (simp only: word_less_nat_alt unat_1)
      with True strtoull_fits [OF shape] V shape all n show ?thesis
        by (auto simp: apply_positive_int_def)
    next
      case False
      with strtoull_overflows [OF shape] V shape show ?thesis
        by (simp add: apply_positive_int_def INT_MAX_def)
    qed
  qed (rule junk)
qed

lemma find_level_names:
  "find_level v LOG_LEVEL_NAMES = Some l \<longleftrightarrow>
     map to_lower v =
       (case l of LS_LOG_SILENT \<Rightarrow> ''silent'' | LS_LOG_ERROR \<Rightarrow> ''error'' | LS_LOG_WARN \<Rightarrow> ''warn''
        | LS_LOG_INFO \<Rightarrow> ''info'' | LS_LOG_DEBUG \<Rightarrow> ''debug'')"
  by (cases l) (auto simp: LOG_LEVEL_NAMES_def strcase_eq_def to_lower_def)

section \<open>The resolved configuration, field by field\<close>

text \<open>What one variable contributes: the default when it is absent, the parsed value or an error
  when it is present.\<close>

definition env_setting :: "os \<Rightarrow> string \<Rightarrow> (string \<Rightarrow> string option \<Rightarrow> ls_err_t + 'a) \<Rightarrow> 'a \<Rightarrow> ls_err_t + 'a" where
  "env_setting sys name parse dflt =
     (case os_getenv sys name of None \<Rightarrow> Inr dflt | Some v \<Rightarrow> parse name (Some v))"

lemma load_env_step:
  assumes "\<And>n v. appl n v = store upd (parse n v)" and "upd (get c) c = c"
  shows "load_env_specs sys ((n, appl) # specs) c = Inr d \<longleftrightarrow>
    (\<exists>v. env_setting sys n parse (get c) = Inr v \<and> load_env_specs sys specs (upd v c) = Inr d)"
  using assms by (auto simp: env_setting_def store_def split: option.splits sum.splits)

abbreviation MAX_INTERVAL_MS :: u64 where
  "MAX_INTERVAL_MS \<equiv> word_of_int INT_MAX * LS_MS_PER_SEC"

abbreviation INT_MAX_MS :: u64 where
  "INT_MAX_MS \<equiv> word_of_int INT_MAX"

lemma unat_max_ms [simp, word_nat]:
  "unat INT_MAX_MS = 2147483647" "unat MAX_INTERVAL_MS = 2147483647000"
  by (simp_all add: INT_MAX_def LS_MS_PER_SEC_def)

lemma load_env_Inr:
  "load_env sys load_defaults = Inr c \<longleftrightarrow>
     env_setting sys ''LINKSTAY_TARGET'' (\<lambda>n v. apply_string n v 64) ''1.1.1.1'' = Inr (target c) \<and>
     env_setting sys ''LINKSTAY_INTERVAL'' (\<lambda>n v. apply_duration n v False MAX_INTERVAL_MS) 10000
       = Inr (interval_ms c) \<and>
     env_setting sys ''LINKSTAY_THRESHOLD'' (\<lambda>n v. apply_positive_int n v ''failures'') 5
       = Inr (fail_threshold c) \<and>
     env_setting sys ''LINKSTAY_TIMEOUT'' (\<lambda>n v. apply_duration n v False INT_MAX_MS) 3000
       = Inr (timeout_ms c) \<and>
     env_setting sys ''LINKSTAY_START_DELAY'' (\<lambda>n v. apply_duration n v True INT_MAX_MS) 0
       = Inr (start_delay_ms c) \<and>
     env_setting sys ''LINKSTAY_POWEROFF'' apply_bool False = Inr (poweroff c) \<and>
     env_setting sys ''LINKSTAY_LOG_LEVEL'' apply_log_level LS_LOG_INFO = Inr (log_level c)"
proof -
  note steps = load_env_step [OF apply_target_def, where get = target]
    load_env_step [OF apply_interval_def, where get = interval_ms]
    load_env_step [OF apply_threshold_def, where get = fail_threshold]
    load_env_step [OF apply_timeout_def, where get = timeout_ms]
    load_env_step [OF apply_start_delay_def, where get = start_delay_ms]
    load_env_step [OF apply_poweroff_def, where get = poweroff]
    load_env_step [OF apply_level_def, where get = log_level]
  show ?thesis
    unfolding load_env_def ENV_SPECS_def load_defaults_eq
    by (cases c) (simp add: steps del: load_env_specs.simps(2))
qed

text \<open>What the rest of the daemon may rely on.\<close>

definition config_ok :: "os \<Rightarrow> ls_config_t \<Rightarrow> bool" where
  "config_ok sys c \<longleftrightarrow>
     target c \<noteq> [] \<and> length (target c) \<le> 63 \<and> ls_addr_is_literal sys (Some (target c)) \<and>
     0 < unat (timeout_ms c) \<and> unat (timeout_ms c) < unat (interval_ms c) \<and>
     unat (timeout_ms c) \<le> 2147483647 \<and> unat (interval_ms c) \<le> 2147483647000 \<and>
     unat (start_delay_ms c) \<le> 2147483647 \<and> 1 \<le> fail_threshold c \<and> fail_threshold c \<le> INT_MAX \<and>
     (poweroff c \<longrightarrow> systemd_runtime_available sys)"

lemma apply_duration_range:
  assumes "apply_duration name (Some v) z mx = Inr ms"
  shows "unat ms \<le> unat mx" "\<not> z \<Longrightarrow> 0 < unat ms"
proof -
  from apply_duration_Inr_text [OF assms] obtain n u where t: "duration_text v n u"
    by blast
  with assms apply_duration_of_text [OF t] duration_textD(4) [OF t]
  show "unat ms \<le> unat mx" "\<not> z \<Longrightarrow> 0 < unat ms"
    by auto
qed

lemma env_duration_range:
  assumes "env_setting sys nm (\<lambda>n v. apply_duration n v z mx) d = Inr ms" "unat d \<le> unat mx"
  shows "unat ms \<le> unat mx" "\<not> z \<Longrightarrow> 0 < unat d \<Longrightarrow> 0 < unat ms"
  using assms apply_duration_range by (auto simp: env_setting_def split: option.splits)

lemma validate_Inr:
  "validate sys c = Inr d \<longleftrightarrow>
     d = c \<and> target c \<noteq> [] \<and> ls_addr_is_literal sys (Some (target c)) \<and>
     unat (timeout_ms c) < unat (interval_ms c) \<and> (poweroff c \<longrightarrow> systemd_runtime_available sys)"
  by (auto simp: validate_def word_le_nat_alt)

lemma ls_config_resolve_Inr:
  "ls_config_resolve sys = Inr c \<longleftrightarrow> load_env sys load_defaults = Inr c \<and> validate sys c = Inr c"
  by (auto simp: ls_config_resolve_def validate_Inr split: sum.splits)

lemma ls_config_resolve_ok:
  assumes "ls_config_resolve sys = Inr c"
  shows "config_ok sys c"
proof -
  note E = assms [unfolded ls_config_resolve_Inr load_env_Inr validate_Inr]
  have t: "env_setting sys ''LINKSTAY_TARGET'' (\<lambda>n v. apply_string n v 64) ''1.1.1.1'' = Inr (target c)"
    and i: "env_setting sys ''LINKSTAY_INTERVAL'' (\<lambda>n v. apply_duration n v False MAX_INTERVAL_MS) 10000
      = Inr (interval_ms c)"
    and f: "env_setting sys ''LINKSTAY_THRESHOLD'' (\<lambda>n v. apply_positive_int n v ''failures'') 5
      = Inr (fail_threshold c)"
    and m: "env_setting sys ''LINKSTAY_TIMEOUT'' (\<lambda>n v. apply_duration n v False INT_MAX_MS) 3000
      = Inr (timeout_ms c)"
    and d: "env_setting sys ''LINKSTAY_START_DELAY'' (\<lambda>n v. apply_duration n v True INT_MAX_MS) 0
      = Inr (start_delay_ms c)"
    using E by - (elim conjE, assumption)+
  have v: "target c \<noteq> []" "ls_addr_is_literal sys (Some (target c))"
    "unat (timeout_ms c) < unat (interval_ms c)" "poweroff c \<longrightarrow> systemd_runtime_available sys"
    using E by - (elim conjE, assumption)+
  have "length (target c) \<le> 63"
    using t
    by (auto simp: env_setting_def apply_string_def invalid_value_def split: option.splits if_splits
        dest: sym)
  moreover have "1 \<le> fail_threshold c \<and> fail_threshold c \<le> INT_MAX"
    using f by (auto simp: env_setting_def apply_positive_int_iff INT_MAX_def split: option.splits)
  moreover have "unat (interval_ms c) \<le> 2147483647000"
    using env_duration_range(1) [OF i] by simp
  moreover have "unat (timeout_ms c) \<le> 2147483647" "0 < unat (timeout_ms c)"
    using env_duration_range [OF m] by simp_all
  moreover have "unat (start_delay_ms c) \<le> 2147483647"
    using env_duration_range(1) [OF d] by simp
  ultimately show ?thesis
    using v by (simp add: config_ok_def)
qed

section \<open>Properties\<close>

text \<open>C14: A configuration that \<^verbatim>\<open>ls_config_resolve\<close> accepts satisfies everything the rest
  of the daemon relies on: a non-empty IP literal of at most 63 characters, a positive timeout
  strictly below the interval, every duration inside the range of its type, a threshold from 1 to
  \<^verbatim>\<open>INT_MAX\<close>, and a systemd host whenever a real power-off is requested.\<close>
theorem resolved_config_ok:
  assumes "ls_config_resolve sys = Inr c"
  shows "config_ok sys c"
  using assms by (rule ls_config_resolve_ok)

theorem resolved_config_ok_witness: "config_ok sample_os load_defaults"
  by (rule resolved_config_ok)
    (simp add: ls_config_resolve_def load_env_def ENV_SPECS_def sample_os_def validate_def load_defaults_eq
      ls_addr_is_literal_def ls_addr_parse_def AF_INET_def)

text \<open>C15: The outcome of \<^verbatim>\<open>ls_config_resolve\<close>, exactly: it succeeds with \<open>c\<close> if and
  only if every field of \<open>c\<close> is the default of its variable when the variable is absent and the
  parsed value when it is present, and \<open>c\<close> passes the cross-field rules. No variable influences
  another field, and nothing outside the seven \<^verbatim>\<open>LINKSTAY_*\<close> variables is read.\<close>
theorem resolve_exact:
  "ls_config_resolve sys = Inr c \<longleftrightarrow>
     env_setting sys ''LINKSTAY_TARGET'' (\<lambda>n v. apply_string n v 64) ''1.1.1.1'' = Inr (target c) \<and>
     env_setting sys ''LINKSTAY_INTERVAL'' (\<lambda>n v. apply_duration n v False (word_of_int INT_MAX * LS_MS_PER_SEC))
       10000 = Inr (interval_ms c) \<and>
     env_setting sys ''LINKSTAY_THRESHOLD'' (\<lambda>n v. apply_positive_int n v ''failures'') 5
       = Inr (fail_threshold c) \<and>
     env_setting sys ''LINKSTAY_TIMEOUT'' (\<lambda>n v. apply_duration n v False (word_of_int INT_MAX)) 3000
       = Inr (timeout_ms c) \<and>
     env_setting sys ''LINKSTAY_START_DELAY'' (\<lambda>n v. apply_duration n v True (word_of_int INT_MAX)) 0
       = Inr (start_delay_ms c) \<and>
     env_setting sys ''LINKSTAY_POWEROFF'' apply_bool False = Inr (poweroff c) \<and>
     env_setting sys ''LINKSTAY_LOG_LEVEL'' apply_log_level LS_LOG_INFO = Inr (log_level c) \<and>
     target c \<noteq> [] \<and> ls_addr_is_literal sys (Some (target c)) \<and>
     unat (timeout_ms c) < unat (interval_ms c) \<and> (\<not> poweroff c \<or> systemd_runtime_available sys)"
  unfolding ls_config_resolve_Inr load_env_Inr validate_Inr by blast

theorem resolve_exact_witness:
  "env_setting sample_os ''LINKSTAY_POWEROFF'' apply_bool False = Inr (poweroff load_defaults)"
proof -
  have "ls_config_resolve sample_os = Inr load_defaults"
    by (simp add: ls_config_resolve_def load_env_def ENV_SPECS_def sample_os_def validate_def load_defaults_eq
        ls_addr_is_literal_def ls_addr_parse_def AF_INET_def)
  then show ?thesis
    unfolding resolve_exact by (elim conjE)
qed

text \<open>C16: Duration values, exactly: a text is accepted if and only if it is a decimal number
  followed by the lowercase suffix \<^verbatim>\<open>s\<close> or \<^verbatim>\<open>ms\<close>, the number is not zero unless
  zero is allowed, and the duration is within the limit; the stored value is then that number
  times the unit. Signs, blanks, bare numbers and values that overflow 64 bits are all rejected.\<close>
theorem duration_accepts_exact:
  "apply_duration name (Some v) z mx = Inr ms \<longleftrightarrow>
     (\<exists>n u. duration_text v n u \<and> unat ms = n * u \<and> n * u \<le> unat mx \<and> (n \<noteq> 0 \<or> z))"
  using apply_duration_Inr_text [of name v z mx ms] apply_duration_of_text [of v] by blast

theorem duration_accepts_exact_witness:
  "apply_duration ''LINKSTAY_TIMEOUT'' (Some ''400ms'') False 1000 = Inr 400"
  unfolding duration_accepts_exact
  by (rule exI [of _ 400], rule exI [of _ 1])
    (auto simp: duration_text_def read_nat_def digit_value_def is_digit_def intro!: exI [of _ "''400''"])

text \<open>C17: The duration text the daemon prints is a duration text it accepts: parsing the output
  of \<^verbatim>\<open>ls_format_duration\<close> gives back the same number of milliseconds, for every value the
  limit admits.\<close>
theorem duration_roundtrip:
  assumes "unat ms \<le> unat mx" "ms \<noteq> 0 \<or> z"
  shows "apply_duration name (Some (ls_format_duration ms 32)) z mx = Inr ms"
proof -
  define whole where "whole \<longleftrightarrow> ms \<ge> LS_MS_PER_SEC \<and> ms mod LS_MS_PER_SEC = 0"
  define n u where "n = (if whole then unat ms div 1000 else unat ms)" and "u = (if whole then 1000 else (1::nat))"
  have "unat ms mod 1000 = 0" if whole
    using that by (simp add: whole_def word_unat_eq_iff unat_mod)
  then have prod: "n * u = unat ms"
    by (auto simp: n_def u_def)
  have "duration_text (ls_format_duration ms 32) n u"
    unfolding duration_text_def
    by (rule exI [of _ "show_nat n"])
      (simp add: show_nat_digits ls_format_duration_exact show_u64_def unat_div n_def u_def flip: whole_def)
  moreover have "n = 0 \<Longrightarrow> z"
    using prod assms(2) by (auto simp: unat_eq_0)
  ultimately show ?thesis
    using apply_duration_of_text prod assms(1) by auto
qed

theorem duration_roundtrip_witness:
  "apply_duration ''LINKSTAY_INTERVAL'' (Some (ls_format_duration 1500 32)) False 10000 = Inr 1500"
  by (rule duration_roundtrip) simp_all

text \<open>C22: \<^verbatim>\<open>LINKSTAY_THRESHOLD\<close> accepts exactly the decimal numbers from 1 to
  \<^verbatim>\<open>INT_MAX\<close>, written with digits only, so the conversion to \<^verbatim>\<open>int\<close> never
  overflows; the log level accepts exactly its five names in any letter case.\<close>
theorem threshold_and_level_exact:
  "(apply_positive_int name (Some v) un = Inr k \<longleftrightarrow>
      v \<noteq> [] \<and> list_all is_digit v \<and> k = int (read_nat v) \<and> 1 \<le> k \<and> k \<le> 2147483647) \<and>
   (apply_log_level name (Some v) = Inr l \<longleftrightarrow>
      map to_lower v =
        (case l of LS_LOG_SILENT \<Rightarrow> ''silent'' | LS_LOG_ERROR \<Rightarrow> ''error'' | LS_LOG_WARN \<Rightarrow> ''warn''
         | LS_LOG_INFO \<Rightarrow> ''info'' | LS_LOG_DEBUG \<Rightarrow> ''debug''))"
  unfolding apply_positive_int_iff find_level_names [symmetric] apply_log_level_def
  by (auto simp: INT_MAX_def invalid_value_def split: option.splits)

end
