(* ===== verification/LS_Icmp.thy ===== *)
theory LS_Icmp
  imports LS_Base LS_Addr
begin

unbundle bit_operations_syntax

text \<open>
  \<^verbatim>\<open>src/icmp.h\<close> and \<^verbatim>\<open>src/icmp.c\<close>: the raw-socket transport. Packets are lists of
  bytes; the byte order of the host is the answer \<open>os_big_endian\<close> of the system, so that
  \<^verbatim>\<open>memcpy\<close> into a \<^verbatim>\<open>uint16_t\<close>, \<^verbatim>\<open>htons\<close> and \<^verbatim>\<open>ntohs\<close> are
  modelled as they act on each kind of host. The socket filters are programs of the classic BPF
  machine, which \<open>bpf_run\<close> of the system theory interprets.
\<close>

section \<open>State and status codes\<close>

datatype ls_icmp_recv_status_t =
  LS_ICMP_RECV_NO_MORE | LS_ICMP_RECV_IGNORED | LS_ICMP_RECV_MATCHED | LS_ICMP_RECV_ERROR

datatype ls_icmp_send_status_t = LS_ICMP_SEND_OK | LS_ICMP_SEND_UNREACHABLE | LS_ICMP_SEND_ERROR

definition LS_ICMP_SEND_BUFFER_SIZE :: nat where "LS_ICMP_SEND_BUFFER_SIZE = 256"
definition LS_ICMP_RECV_BUFFER_SIZE :: nat where "LS_ICMP_RECV_BUFFER_SIZE = 1500"

record ls_icmp_t =
  icmp_sockfd :: int
  icmp_opened :: bool
  icmp_family :: nat
  icmp_sequence :: u16
  bpf_errno :: "errno option"
  send_buf :: "u8 list"
  recv_buf :: "u8 list"

definition zero_icmp :: ls_icmp_t where
  "zero_icmp =
     \<lparr>icmp_sockfd = 0, icmp_opened = False, icmp_family = 0, icmp_sequence = 0, bpf_errno = None,
      send_buf = replicate LS_ICMP_SEND_BUFFER_SIZE 0, recv_buf = replicate LS_ICMP_RECV_BUFFER_SIZE 0\<rparr>"

section \<open>Byte order\<close>

definition be16 :: "u8 \<Rightarrow> u8 \<Rightarrow> u16" where
  "be16 hi lo = ucast hi * 256 + ucast lo"

definition hi8 :: "u16 \<Rightarrow> u8" where "hi8 x = ucast (drop_bit 8 x)"
definition lo8 :: "u16 \<Rightarrow> u8" where "lo8 x = ucast x"

text \<open>Two adjacent bytes read as a native \<^verbatim>\<open>uint16_t\<close>, and the bytes of one.\<close>

definition load16 :: "bool \<Rightarrow> u8 \<Rightarrow> u8 \<Rightarrow> u16" where
  "load16 big a b = (if big then be16 a b else be16 b a)"

definition store16 :: "bool \<Rightarrow> u16 \<Rightarrow> u8 list" where
  "store16 big x = (if big then [hi8 x, lo8 x] else [lo8 x, hi8 x])"

definition htons :: "bool \<Rightarrow> u16 \<Rightarrow> u16" where
  "htons big x = (if big then x else be16 (lo8 x) (hi8 x))"

definition ntohs :: "bool \<Rightarrow> u16 \<Rightarrow> u16" where
  "ntohs big x = htons big x"

section \<open>Socket filter\<close>

definition ICMP_ECHOREPLY :: u8 where "ICMP_ECHOREPLY = 0"
definition ICMP_ECHO :: u8 where "ICMP_ECHO = 8"
definition ICMP6_ECHO_REQUEST :: u8 where "ICMP6_ECHO_REQUEST = 128"
definition ICMP6_ECHO_REPLY :: u8 where "ICMP6_ECHO_REPLY = 129"
definition IPPROTO_ICMP :: u8 where "IPPROTO_ICMP = 1"

definition family_filter :: "nat \<Rightarrow> bpf_insn list" where
  "family_filter family =
     (if family = AF_INET
      then [BPF_LD_B_ABS 0, BPF_ALU_AND_K 0x0f, BPF_ALU_MUL_K 4, BPF_MISC_TAX, BPF_LD_B_IND 0,
            BPF_JMP_JEQ_K (ucast ICMP_ECHOREPLY) 0 1, BPF_RET_K 0xffff, BPF_RET_K 0]
      else [BPF_LD_B_ABS 0, BPF_JMP_JEQ_K (ucast ICMP6_ECHO_REPLY) 0 1, BPF_RET_K 0xffff, BPF_RET_K 0])"

definition attach_bpf_filter :: "bpf_insn list \<Rightarrow> world \<Rightarrow> errno option \<times> world" where
  "attach_bpf_filter prog w =
     (let (r, w) = ask os_setsockopt w in (r, emit (Attach_filter prog) w))"

definition attach_family_filter :: "nat \<Rightarrow> world \<Rightarrow> errno option \<times> world" where
  "attach_family_filter family w = attach_bpf_filter (family_filter family) w"

section \<open>Opening and closing\<close>

definition ls_icmp_open :: "nat \<Rightarrow> ls_icmp_t \<Rightarrow> world \<Rightarrow> (ls_err_t + unit) \<times> ls_icmp_t \<times> world" where
  "ls_icmp_open family icmp w =
     (if family \<noteq> AF_INET \<and> family \<noteq> AF_INET6
      then (ls_err_set ''Invalid ICMP socket request'', icmp, w)
      else let icmp = zero_icmp\<lparr>icmp_sockfd := -1, icmp_family := family\<rparr>;
               (r, w) = ask os_socket w
           in case r of
                Inl e \<Rightarrow>
                  (ls_err_set (''Cannot create ICMP socket (family='' @ show_nat family @ ''): '' @
                     os_strerror (world_os w) e @ '' (root or CAP_NET_RAW required)''), icmp, w)
              | Inr fd \<Rightarrow>
                  (let w = emit (Open_fd fd) w;
                       icmp = icmp\<lparr>icmp_sockfd := int fd, icmp_opened := True\<rparr>;
                       (b, w) = attach_family_filter family w
                   in (Inr (), icmp\<lparr>bpf_errno := b\<rparr>, w)))"

definition ls_icmp_close :: "ls_icmp_t \<Rightarrow> world \<Rightarrow> ls_icmp_t \<times> world" where
  "ls_icmp_close icmp w =
     (let w = (if icmp_opened icmp \<and> icmp_sockfd icmp \<ge> 0 then emit (Close_fd (icmp_sockfd icmp)) w else w)
      in (icmp\<lparr>icmp_opened := False, icmp_sockfd := -1\<rparr>, w))"

section \<open>Echo request construction\<close>

text \<open>The summation loop of \<^verbatim>\<open>icmp_checksum\<close>, in 32-bit arithmetic.\<close>

fun sum_words :: "bool \<Rightarrow> u8 list \<Rightarrow> u32 \<Rightarrow> u32" where
  "sum_words big (a # b # rest) s = sum_words big rest (s + ucast (load16 big a b))"
| "sum_words big [a] s = s + ucast a"
| "sum_words big [] s = s"

lemma unat_low_high_16:
  "unat ((s :: u32) AND 0xFFFF) = unat s mod 65536" "unat (drop_bit 16 (s :: u32)) = unat s div 65536"
proof -
  have "(s AND 0xFFFF) = take_bit 16 s"
    by (simp add: take_bit_eq_mask mask_eq_exp_minus_1)
  then show "unat (s AND 0xFFFF) = unat s mod 65536"
    by (simp add: take_bit_eq_mod unat_mod)
  show "unat (drop_bit 16 s) = unat s div 65536"
    by (simp add: drop_bit_eq_div unat_div)
qed

lemma unat_carry_step:
  "unat (((s :: u32) AND 0xFFFF) + drop_bit 16 s) = unat s mod 65536 + unat s div 65536"
proof -
  have "unat s < 4294967296"
    using unsigned_less [of s] by simp
  then have "unat s div 65536 < 65536"
    by (simp add: less_mult_imp_div_less)
  moreover have "unat s mod 65536 < 65536"
    by simp
  ultimately have "unat s mod 65536 + unat s div 65536 < 4294967296"
    by linarith
  then show ?thesis
    by (simp add: unat_word_ariths unat_low_high_16)
qed

lemma fold_carry_decreases:
  assumes "drop_bit 16 s \<noteq> (0 :: u32)"
  shows "unat ((s AND 0xFFFF) + drop_bit 16 s) < unat s"
proof -
  have "0 < unat s div 65536"
    using assms unat_low_high_16(2) [of s] by (metis gr0I unat_eq_0)
  moreover have "unat s = unat s div 65536 * 65536 + unat s mod 65536"
    by simp
  ultimately show ?thesis
    unfolding unat_carry_step by linarith
qed

function fold_carry :: "u32 \<Rightarrow> u32" where
  "fold_carry s = (if drop_bit 16 s \<noteq> 0 then fold_carry ((s AND 0xFFFF) + drop_bit 16 s) else s)"
  by pat_completeness auto
termination
  by (relation "measure unat") (simp, simp only: in_measure, rule fold_carry_decreases)

declare fold_carry.simps [simp del]

definition icmp_checksum :: "bool \<Rightarrow> u8 list \<Rightarrow> u16" where
  "icmp_checksum big bytes = ucast (NOT (fold_carry (sum_words big bytes 0)))"

definition fill_payload :: "u8 list \<Rightarrow> nat \<Rightarrow> nat \<Rightarrow> u8 list" where
  "fill_payload packet packet_len header_len =
     take header_len packet @ map (\<lambda>i. of_nat i AND 0xFF) [0..<packet_len - header_len] @ drop packet_len packet"

definition next_sequence :: "u16 \<Rightarrow> u16" where
  "next_sequence s = (if s = 0xFFFF then 1 else s + 1)"

definition send_error_is_network_condition :: "errno \<Rightarrow> bool" where
  "send_error_is_network_condition e =
     (case e of ENETUNREACH \<Rightarrow> True | EHOSTUNREACH \<Rightarrow> True | ENETDOWN \<Rightarrow> True | EHOSTDOWN \<Rightarrow> True
      | ENETRESET \<Rightarrow> True | ENOBUFS \<Rightarrow> True | EAGAIN \<Rightarrow> True | _ \<Rightarrow> False)"

definition sizeof_echo_header :: nat where "sizeof_echo_header = 8"

text \<open>The send buffer once the request is written: type, code, checksum, identifier, sequence,
  payload. The IPv6 checksum stays 0 for the kernel to fill in.\<close>

definition echo_header :: "bool \<Rightarrow> u8 \<Rightarrow> u16 \<Rightarrow> u16 \<Rightarrow> u8 list" where
  "echo_header big typ identifier seq =
     [typ, 0, 0, 0] @ store16 big (htons big identifier) @ store16 big (htons big seq)"

definition put_checksum :: "bool \<Rightarrow> u8 list \<Rightarrow> u16 \<Rightarrow> u8 list" where
  "put_checksum big buf c = take 2 buf @ store16 big c @ drop 4 buf"

definition build_echo :: "bool \<Rightarrow> nat \<Rightarrow> u16 \<Rightarrow> u16 \<Rightarrow> nat \<Rightarrow> u8 list \<Rightarrow> u8 list" where
  "build_echo big family identifier seq packet_len buf =
     (if family = AF_INET6
      then fill_payload (echo_header big ICMP6_ECHO_REQUEST identifier seq @ drop sizeof_echo_header buf)
             packet_len sizeof_echo_header
      else let buf = fill_payload (echo_header big ICMP_ECHO identifier seq @ drop sizeof_echo_header buf)
                       packet_len sizeof_echo_header
           in put_checksum big buf (icmp_checksum big (take packet_len buf)))"

definition ls_icmp_send_echo ::
  "ls_icmp_t \<Rightarrow> sockaddr_storage \<Rightarrow> nat \<Rightarrow> u16 \<Rightarrow> nat \<Rightarrow> world \<Rightarrow>
   ls_icmp_send_status_t \<times> ls_err_t \<times> ls_icmp_t \<times> world" where
  "ls_icmp_send_echo icmp dest dest_len identifier packet_len w =
     (if \<not> icmp_opened icmp \<or> icmp_sockfd icmp < 0
      then (LS_ICMP_SEND_ERROR, c_snprintf 256 ''ICMP socket is not initialized'', icmp, w)
      else if ss_family dest \<noteq> AF_INET \<and> ss_family dest \<noteq> AF_INET6
      then (LS_ICMP_SEND_ERROR, c_snprintf 256 (''Unsupported address family: '' @ show_nat (ss_family dest)), icmp, w)
      else if ss_family dest \<noteq> icmp_family icmp
      then (LS_ICMP_SEND_ERROR, c_snprintf 256 (''Address family mismatch: dest='' @ show_nat (ss_family dest) @
              '', socket='' @ show_nat (icmp_family icmp)), icmp, w)
      else if packet_len < sizeof_echo_header \<or> packet_len > LS_ICMP_SEND_BUFFER_SIZE
      then (LS_ICMP_SEND_ERROR, c_snprintf 256 (''Invalid ICMP packet size: '' @ show_nat packet_len), icmp, w)
      else let icmp = icmp\<lparr>icmp_sequence := next_sequence (icmp_sequence icmp)\<rparr>;
               big = os_big_endian (world_os w);
               icmp = icmp\<lparr>send_buf := build_echo big (icmp_family icmp) identifier (icmp_sequence icmp)
                        packet_len (send_buf icmp)\<rparr>;
               (r, w) = ask os_sendto w;
               sent = settle r;
               w = emit (Echo_send (take packet_len (send_buf icmp)) dest dest_len sent) w
           in case sent of
                Inl e \<Rightarrow>
                  (if send_error_is_network_condition e then LS_ICMP_SEND_UNREACHABLE else LS_ICMP_SEND_ERROR,
                   c_snprintf 256 (os_strerror (world_os w) e), icmp, w)
              | Inr n \<Rightarrow>
                  if n \<noteq> packet_len
                  then (LS_ICMP_SEND_ERROR, c_snprintf 256 (''Short send ('' @ show_nat n @ '' of '' @
                          show_nat packet_len @ '' bytes)''), icmp, w)
                  else (LS_ICMP_SEND_OK, [], icmp, w))"

section \<open>Reply matching\<close>

definition source_matches :: "sockaddr_storage \<Rightarrow> sockaddr_storage \<Rightarrow> bool" where
  "source_matches dest from =
     (if ss_family from \<noteq> ss_family dest then False
      else if ss_family dest = AF_INET then sin_addr dest = sin_addr from
      else sin6_addr dest = sin6_addr from)"

definition sizeof_ip :: nat where "sizeof_ip = 20"

definition reply_matches :: "bool \<Rightarrow> u8 list \<Rightarrow> nat \<Rightarrow> nat \<Rightarrow> u16 \<Rightarrow> u16 \<Rightarrow> bool" where
  "reply_matches big buf received family identifier expected_sequence =
     (if family = AF_INET
      then if received < sizeof_ip \<or> buf ! 9 \<noteq> IPPROTO_ICMP then False
           else let ip_hdr_len = unat (buf ! 0 AND 0x0f) * 4
                in if ip_hdr_len < sizeof_ip \<or> ip_hdr_len + sizeof_echo_header > received then False
                   else buf ! ip_hdr_len = ICMP_ECHOREPLY \<and>
                        ntohs big (load16 big (buf ! (ip_hdr_len + 4)) (buf ! (ip_hdr_len + 5))) = identifier \<and>
                        ntohs big (load16 big (buf ! (ip_hdr_len + 6)) (buf ! (ip_hdr_len + 7))) = expected_sequence
      else if received < sizeof_echo_header then False
           else buf ! 0 = ICMP6_ECHO_REPLY \<and>
                ntohs big (load16 big (buf ! 4) (buf ! 5)) = identifier \<and>
                ntohs big (load16 big (buf ! 6) (buf ! 7)) = expected_sequence)"

definition ls_icmp_recv ::
  "ls_icmp_t \<Rightarrow> sockaddr_storage \<Rightarrow> u16 \<Rightarrow> u16 \<Rightarrow> world \<Rightarrow>
   ls_icmp_recv_status_t \<times> ls_err_t \<times> ls_icmp_t \<times> world" where
  "ls_icmp_recv icmp dest identifier expected_sequence w =
     (if \<not> icmp_opened icmp \<or> icmp_sockfd icmp < 0
      then (LS_ICMP_RECV_ERROR, c_snprintf 256 ''Invalid ICMP receive arguments'', icmp, w)
      else if ss_family dest \<noteq> AF_INET \<and> ss_family dest \<noteq> AF_INET6
      then (LS_ICMP_RECV_ERROR, c_snprintf 256 (''Unsupported address family: '' @ show_nat (ss_family dest)), icmp, w)
      else if ss_family dest \<noteq> icmp_family icmp
      then (LS_ICMP_RECV_ERROR, c_snprintf 256 (''Address family mismatch: dest='' @ show_nat (ss_family dest) @
              '', socket='' @ show_nat (icmp_family icmp)), icmp, w)
      else let (r, w) = ask os_recvfrom w
           in case r of
                Inl e \<Rightarrow>
                  if e = EAGAIN \<or> e = EINTR then (LS_ICMP_RECV_NO_MORE, [], icmp, w)
                  else (LS_ICMP_RECV_ERROR, c_snprintf 256 (os_strerror (world_os w) e), icmp, w)
              | Inr (data, from) \<Rightarrow>
                  let got = take LS_ICMP_RECV_BUFFER_SIZE data;
                      icmp = icmp\<lparr>recv_buf := got @ drop (length got) (recv_buf icmp)\<rparr>;
                      w = emit Recv_packet w
                  in if length got = 0 \<or> \<not> source_matches dest from then (LS_ICMP_RECV_IGNORED, [], icmp, w)
                     else if reply_matches (os_big_endian (world_os w)) (recv_buf icmp) (length got)
                               (ss_family dest) identifier expected_sequence
                     then (LS_ICMP_RECV_MATCHED, [], icmp, w)
                     else (LS_ICMP_RECV_IGNORED, [], icmp, w))"

section \<open>Byte order laws\<close>

lemma unat_be16: "unat (be16 a b) = unat a * 256 + unat b"
proof -
  show ?thesis
    using unat_bounds(1) [of a] unat_bounds(1) [of b] by (simp add: be16_def unat_word_ariths unsigned_ucast_eq take_bit_eq_mod)
qed

lemma unat_hi8: "unat (hi8 x) = unat x div 256"
proof -
  have "unat x < 65536"
    by (rule unat_bounds)
  then show ?thesis
    by (simp add: hi8_def unsigned_ucast_eq unat_drop_bit_eq drop_bit_eq_div unat_div take_bit_eq_mod)
qed

lemma unat_lo8: "unat (lo8 x) = unat x mod 256"
  by (simp add: lo8_def unsigned_ucast_eq take_bit_eq_mod)

lemma be16_hi8_lo8 [simp]: "be16 (hi8 x) (lo8 x) = x"
  by (simp add: word_unat_eq_iff unat_be16 unat_hi8 unat_lo8)

lemma hi8_be16 [simp]: "hi8 (be16 a b) = a"
  and lo8_be16 [simp]: "lo8 (be16 a b) = b"
proof -
  have "unat b < 256"
    by (rule unat_bounds)
  then show "hi8 (be16 a b) = a" "lo8 (be16 a b) = b"
    by (simp_all only: word_unat_eq_iff unat_be16 unat_hi8 unat_lo8) simp_all
qed

text \<open>On either kind of host the wire carries the high byte first.\<close>

lemma store16_htons [simp]: "store16 big (htons big x) = [hi8 x, lo8 x]"
  by (simp add: store16_def htons_def)

lemma ntohs_load16 [simp]: "ntohs big (load16 big a b) = be16 a b"
  by (simp add: ntohs_def htons_def load16_def)

lemma length_store16 [simp]: "length (store16 big x) = 2"
  by (simp add: store16_def)

section \<open>The Internet checksum\<close>

text \<open>The exact sum of the 16-bit words. The 32-bit accumulator of the code does not overflow on any
  packet below 65536 bytes, and folding the carries keeps the sum modulo 65535, so a packet that
  carries its own checksum sums to all ones.\<close>

fun words_sum :: "bool \<Rightarrow> u8 list \<Rightarrow> nat" where
  "words_sum big (a # b # rest) = unat (load16 big a b) + words_sum big rest"
| "words_sum big [a] = unat a"
| "words_sum big [] = 0"

lemma words_sum_append:
  "even (length xs) \<Longrightarrow> words_sum big (xs @ ys) = words_sum big xs + words_sum big ys"
  by (induction big xs rule: words_sum.induct) auto

lemma words_sum_store16 [simp]: "words_sum big (store16 big x) = unat x"
  by (simp add: store16_def load16_def)

lemma words_sum_bound: "words_sum big xs \<le> 65535 * length xs"
proof (induction big xs rule: words_sum.induct)
  case (1 big a b rest)
  have "unat (load16 big a b) < 65536"
    by (rule unat_bounds)
  with 1 show ?case by simp
next
  case (2 big a)
  then show ?case
    using unat_bounds(1) [of a] by simp
qed simp

lemma unat_ucast_u32:
  "unat (ucast (x :: u16) :: u32) = unat x" "unat (ucast (y :: u8) :: u32) = unat y"
  using unat_bounds(2) [of x] unat_bounds(1) [of y]
  by (simp_all add: unsigned_ucast_eq take_bit_eq_mod)

lemma unat_u32_add: "unat (a :: u32) + unat b < 4294967296 \<Longrightarrow> unat (a + b) = unat a + unat b"
  by (simp add: unat_word_ariths)

lemma unat_sum_words:
  "unat s + words_sum big xs < 4294967296 \<Longrightarrow> unat (sum_words big xs s) = unat s + words_sum big xs"
proof (induction big xs s rule: sum_words.induct)
  case (1 big a b rest s)
  have s: "unat (s + ucast (load16 big a b)) = unat s + unat (load16 big a b)"
    using 1(2) by (subst unat_u32_add) (simp_all add: unat_ucast_u32)
  show ?case
    using 1(1) 1(2) unfolding sum_words.simps words_sum.simps s by linarith
next
  case (2 big a s)
  then show ?case
    unfolding sum_words.simps words_sum.simps by (subst unat_u32_add) (simp_all add: unat_ucast_u32)
qed simp

lemma unat_fold_carry:
  "unat (fold_carry s) < 65536 \<and> unat (fold_carry s) mod 65535 = unat s mod 65535 \<and>
   (unat (fold_carry s) = 0 \<longleftrightarrow> unat s = 0)"
proof (induction s rule: fold_carry.induct)
  case (1 s)
  show ?case
  proof (cases "drop_bit 16 s = 0")
    case True
    then have "unat s div 65536 = 0"
      using unat_low_high_16(2) [of s] by simp
    with True show ?thesis
      by (simp add: fold_carry.simps [of s] div_eq_0_iff)
  next
    case False
    let ?t = "(s AND 0xFFFF) + drop_bit 16 s"
    have split: "unat s = unat s div 65536 * 65535 + (unat s mod 65536 + unat s div 65536)"
      using div_mult_mod_eq [of "unat s" 65536] by linarith
    then have "unat ?t mod 65535 = unat s mod 65535"
      unfolding unat_carry_step by (metis mod_mult_self3)
    moreover have "unat ?t = 0 \<longleftrightarrow> unat s = 0"
      unfolding unat_carry_step using split by auto
    ultimately show ?thesis
      using 1 False fold_carry.simps [of s] by simp
  qed
qed

lemma unat_not_u16: "unat (NOT (x :: u16)) = 65535 - unat x"
proof -
  have "NOT x = - 1 - x" by (simp add: not_eq_complement)
  moreover have "unat (- 1 :: u16) = 65535" by (simp add: unsigned_minus_1_eq_mask mask_eq_exp_minus_1)
  ultimately show ?thesis by (simp add: unat_sub)
qed

lemma unat_icmp_checksum:
  "unat (icmp_checksum big xs) = 65535 - unat (fold_carry (sum_words big xs 0))"
proof -
  let ?f = "fold_carry (sum_words big xs 0)"
  have "ucast (NOT ?f) = NOT (ucast ?f :: u16)"
    by (rule bit_word_eqI) (simp add: bit_simps)
  moreover have "unat (ucast ?f :: u16) = unat ?f"
    using unat_fold_carry [of "sum_words big xs 0"] by (simp add: unsigned_ucast_eq take_bit_eq_mod)
  ultimately show ?thesis
    by (simp add: icmp_checksum_def unat_not_u16)
qed

text \<open>One's-complement arithmetic on folded sums: \<open>g\<close> is the folded sum \<open>S\<close>, \<open>c\<close> its complement
  and \<open>h\<close> the folded sum once \<open>c\<close> is added.\<close>

lemma folded_complement:
  fixes S c g h :: nat
  assumes g: "g < 65536" "g mod 65535 = S mod 65535" "g = 0 \<longleftrightarrow> S = 0" and c: "c = 65535 - g"
    and h: "h < 65536" "h mod 65535 = (S + c) mod 65535" "h = 0 \<longleftrightarrow> S + c = 0"
  shows "h = 65535"
proof -
  have "(S + c) mod 65535 = (g + c) mod 65535"
    using g(2) by (metis mod_add_left_eq)
  also have "\<dots> = 0"
    using c g(1) by simp
  finally have "h mod 65535 = 0"
    using h(2) by simp
  moreover have "h \<noteq> 0"
    using g(1,3) h(3) c by auto
  ultimately show ?thesis
    using h(1) by (cases "h < 65535") simp_all
qed

lemma checksum_verifies:
  assumes "even (length xs)" and len: "length xs + length ys \<le> 60000"
  shows "icmp_checksum big (xs @ store16 big (icmp_checksum big (xs @ [0, 0] @ ys)) @ ys) = 0"
proof -
  let ?S = "words_sum big xs + words_sum big ys"
  let ?c = "icmp_checksum big (xs @ [0, 0] @ ys)"
  have small: "?S + 65535 < 4294967296"
    using words_sum_bound [of big xs] words_sum_bound [of big ys] len by linarith
  have c0: "unat ?c < 65536"
    by (rule unat_bounds)
  have "words_sum big [0, 0] = 0"
    by (simp add: load16_def be16_def)
  then have "words_sum big (xs @ [0, 0] @ ys) = ?S"
    using assms(1) words_sum_append [of "[0, 0]" big ys] by (simp add: words_sum_append)
  then have zero: "unat (sum_words big (xs @ [0, 0] @ ys) 0) = ?S"
    using small unat_sum_words [of 0 big "xs @ [0, 0] @ ys"] by simp
  have "words_sum big (xs @ store16 big ?c @ ys) = ?S + unat ?c"
    using assms(1) by (simp add: words_sum_append)
  then have sum: "unat (sum_words big (xs @ store16 big ?c @ ys) 0) = ?S + unat ?c"
    using small c0 unat_sum_words [of 0 big "xs @ store16 big ?c @ ys"] by simp
  have "unat (fold_carry (sum_words big (xs @ store16 big ?c @ ys) 0)) = 65535"
    by (rule folded_complement [where S = ?S and c = "unat ?c" and g = "unat (fold_carry (sum_words big (xs @ [0, 0] @ ys) 0))"])
      (use unat_fold_carry [of "sum_words big (xs @ [0, 0] @ ys) 0"]
        unat_fold_carry [of "sum_words big (xs @ store16 big ?c @ ys) 0"] zero sum in \<open>simp_all add: unat_icmp_checksum\<close>)
  then show ?thesis
    using unat_icmp_checksum [of big "xs @ store16 big ?c @ ys"] by (simp add: unat_eq_0)
qed

section \<open>The reference checksum of RFC 1071\<close>

text \<open>The one's-complement sum as the RFC defines it, independent of the code: the 16-bit words are read
  in network byte order, an odd last octet is padded with a zero octet on the right, and every addition
  carries around into the lowest bit. A packet verifies when the sum over all its words, the checksum
  field included, is all ones (65535). Reading the words in the other byte order multiplies the sum by
  256 modulo 65535, so the sum of a little-endian host verifies too. The code adds an odd last octet as
  the value of the octet itself; that is the padded word as a little-endian host reads it, but not as a
  big-endian one does.\<close>

fun be_words :: "u8 list \<Rightarrow> nat list" where
  "be_words (a # b # rest) = (256 * unat a + unat b) # be_words rest"
| "be_words [a] = [256 * unat a]"
| "be_words [] = []"

definition ones_add :: "nat \<Rightarrow> nat \<Rightarrow> nat" where
  "ones_add a b = (if a + b < 65536 then a + b else a + b - 65535)"

definition rfc1071_sum :: "u8 list \<Rightarrow> nat" where
  "rfc1071_sum bytes = foldl ones_add 0 (be_words bytes)"

lemma be_words_bound: "w \<in> set (be_words xs) \<Longrightarrow> w \<le> 65535"
proof (induction xs rule: be_words.induct)
  case (1 a b rest)
  then show ?case using unat_bounds(1) [of a] unat_bounds(1) [of b] by auto
next
  case (2 a)
  then show ?case using unat_bounds(1) [of a] by simp
qed simp

lemma foldl_ones_add:
  assumes "s \<le> 65535" "\<And>w. w \<in> set ws \<Longrightarrow> w \<le> 65535"
  shows "foldl ones_add s ws \<le> 65535 \<and> foldl ones_add s ws mod 65535 = (s + sum_list ws) mod 65535 \<and>
    (foldl ones_add s ws = 0 \<longleftrightarrow> s + sum_list ws = 0)"
  using assms
proof (induction ws arbitrary: s)
  case (Cons w ws)
  have w: "w \<le> 65535" using Cons(3) by simp
  have add: "ones_add s w \<le> 65535" "ones_add s w mod 65535 = (s + w) mod 65535" "ones_add s w = 0 \<longleftrightarrow> s + w = 0"
    using Cons(2) w by (auto simp: ones_add_def le_mod_geq)
  have "(ones_add s w + sum_list ws) mod 65535 = (s + w + sum_list ws) mod 65535"
    using add(2) by (metis mod_add_left_eq)
  with Cons(1) [OF add(1)] Cons(3) add(3) show ?case by (simp add: add.assoc)
qed simp

lemma words_sum_big: "even (length xs) \<Longrightarrow> words_sum True xs = sum_list (be_words xs)"
  by (induction xs rule: be_words.induct) (auto simp: load16_def unat_be16)

lemma words_sum_little: "(256 * words_sum False xs) mod 65535 = sum_list (be_words xs) mod 65535"
proof (induction xs rule: be_words.induct)
  case (1 a b rest)
  have "256 * words_sum False (a # b # rest) = 65535 * unat b + ((256 * unat a + unat b) + 256 * words_sum False rest)"
    by (simp add: load16_def unat_be16 algebra_simps)
  then have "(256 * words_sum False (a # b # rest)) mod 65535 = ((256 * unat a + unat b) + 256 * words_sum False rest) mod 65535"
    by (simp only: mod_mult_self4)
  also have "\<dots> = ((256 * unat a + unat b) + sum_list (be_words rest)) mod 65535"
    using 1 by (metis mod_add_right_eq)
  finally show ?case by simp
qed simp_all

lemma rfc1071_verifies:
  assumes "icmp_checksum big xs = 0" "length xs \<le> 60000" "even (length xs) \<or> \<not> big" "sum_list (be_words xs) \<noteq> 0"
  shows "rfc1071_sum xs = 65535"
proof -
  let ?f = "fold_carry (sum_words big xs 0)"
  have "unat (sum_words big xs 0) = words_sum big xs"
    using unat_sum_words [of 0 big xs] words_sum_bound [of big xs] assms(2) by simp
  moreover have "unat ?f = 65535"
    using unat_icmp_checksum [of big xs] unat_fold_carry [of "sum_words big xs 0"] assms(1) by simp
  ultimately have "words_sum big xs mod 65535 = 0"
    using unat_fold_carry [of "sum_words big xs 0"] by simp
  then have d: "65535 dvd words_sum big xs" by (rule mod_0_imp_dvd)
  have "65535 dvd sum_list (be_words xs)"
  proof (cases big)
    case True
    then show ?thesis using d assms(3) words_sum_big [of xs] by simp
  next
    case False
    then have "(256 * words_sum False xs) mod 65535 = 0" using d by (simp only: dvd_imp_mod_0 dvd_mult)
    then show ?thesis unfolding words_sum_little by (rule mod_0_imp_dvd)
  qed
  then have "sum_list (be_words xs) mod 65535 = 0" by (rule dvd_imp_mod_0)
  with foldl_ones_add [of 0 "be_words xs"] be_words_bound assms(4) show ?thesis
    unfolding rfc1071_sum_def by (cases "foldl ones_add 0 (be_words xs) < 65535") auto
qed

section \<open>The echo request\<close>

lemma length_echo_header [simp]: "length (echo_header big typ i s) = 8"
  by (simp add: echo_header_def)

lemma echo_header_wire: "echo_header big typ i s = [typ, 0, 0, 0, hi8 i, lo8 i, hi8 s, lo8 s]"
  by (simp add: echo_header_def)

lemma fill_payload_echo:
  "8 \<le> len \<Longrightarrow> fill_payload (echo_header big typ i s @ drop 8 buf) len 8 =
     [typ, 0, 0, 0] @ ([hi8 i, lo8 i, hi8 s, lo8 s] @ map (\<lambda>i. of_nat i AND 0xFF) [0..<len - 8]) @ drop len buf"
  by (simp add: fill_payload_def) (simp add: echo_header_wire)

lemma put_checksum_header: "put_checksum big ([t, c, x, y] @ rest) k = [t, c] @ store16 big k @ rest"
  by (simp add: put_checksum_def)

text \<open>The packet on the wire, written out: the reference for \<open>build_echo\<close>.\<close>

definition echo_packet :: "bool \<Rightarrow> nat \<Rightarrow> u16 \<Rightarrow> u16 \<Rightarrow> nat \<Rightarrow> u8 list" where
  "echo_packet big family identifier seq len =
     (let typ = (if family = AF_INET6 then ICMP6_ECHO_REQUEST else ICMP_ECHO);
          payload = map (\<lambda>i. of_nat i AND 0xFF) [0..<len - sizeof_echo_header];
          tail = [hi8 identifier, lo8 identifier, hi8 seq, lo8 seq] @ payload
      in [typ, 0] @ (if family = AF_INET6 then [0, 0]
                     else store16 big (icmp_checksum big ([typ, 0] @ [0, 0] @ tail))) @ tail)"

lemma build_echo_packet:
  assumes "8 \<le> len"
  shows "build_echo big family identifier seq len buf =
    echo_packet big family identifier seq len @ drop len buf"
proof -
  have "take len ([t, c, x, y] @ ([p, q, r, s] @ map f [0..<len - 8]) @ drop len buf) =
      [t, c, x, y] @ ([p, q, r, s] @ map f [0..<len - 8])" for t c x y p q r s f
  proof -
    have "length ([t, c, x, y] @ ([p, q, r, s] @ map f [0..<len - 8])) = len"
      using assms by simp
    then show ?thesis
      by (metis append_assoc append_eq_conv_conj)
  qed
  then show ?thesis
    using assms unfolding build_echo_def echo_packet_def Let_def sizeof_echo_header_def
    by (simp only: fill_payload_echo put_checksum_header append_assoc split: if_splits) simp
qed

lemma length_echo_packet [simp]: "8 \<le> len \<Longrightarrow> length (echo_packet big family identifier seq len) = len"
  by (simp add: echo_packet_def Let_def sizeof_echo_header_def)

lemma echo_packet_checksum:
  assumes "len \<le> 60000" "family \<noteq> AF_INET6"
  shows "icmp_checksum big (echo_packet big family identifier seq len) = 0"
  using assms checksum_verifies [where xs = "[ICMP_ECHO, 0]" and big = big and
      ys = "[hi8 identifier, lo8 identifier, hi8 seq, lo8 seq] @ map (\<lambda>i. of_nat i AND 0xFF) [0..<len - 8]"]
  by (simp add: echo_packet_def Let_def sizeof_echo_header_def)

lemma echo_packet_rfc1071:
  assumes "8 \<le> len" "len \<le> 60000" "family \<noteq> AF_INET6" "even len \<or> \<not> big"
  shows "rfc1071_sum (echo_packet big family identifier seq len) = 65535"
proof (rule rfc1071_verifies [OF echo_packet_checksum [OF assms(2,3)]])
  obtain rest where "echo_packet big family identifier seq len = ICMP_ECHO # 0 # rest"
    using assms(3) by (simp add: echo_packet_def Let_def)
  then show "sum_list (be_words (echo_packet big family identifier seq len)) \<noteq> 0"
    by (simp add: ICMP_ECHO_def)
qed (use assms in simp_all)

text \<open>The odd last octet on a big-endian host: a request of 11 bytes does not verify.\<close>

lemma odd_length_big_endian: "rfc1071_sum (take 11 (build_echo True AF_INET 7 3 11 buf)) \<noteq> 65535"
proof -
  have "icmp_checksum True [8, 0, 0, 0, 0, 7, 0, 3, 0, 1, 2] = 0xF7F2"
    by (simp add: icmp_checksum_def load16_def be16_def fold_carry.simps)
  then have "echo_packet True AF_INET 7 3 11 = [8, 0, 0xF7, 0xF2, 0, 7, 0, 3, 0, 1, 2]"
    by (simp add: echo_packet_def sizeof_echo_header_def ICMP_ECHO_def store16_def hi8_def lo8_def Let_def upt_rec)
  then show ?thesis
    by (simp add: build_echo_packet rfc1071_sum_def ones_add_def)
qed

section \<open>State invariant and frame\<close>

definition icmp_ok :: "ls_icmp_t \<Rightarrow> bool" where
  "icmp_ok icmp \<longleftrightarrow>
     length (send_buf icmp) = LS_ICMP_SEND_BUFFER_SIZE \<and> length (recv_buf icmp) = LS_ICMP_RECV_BUFFER_SIZE \<and>
     (icmp_opened icmp \<longrightarrow> icmp_sockfd icmp \<ge> 0 \<and> (icmp_family icmp = AF_INET \<or> icmp_family icmp = AF_INET6))"

lemma zero_icmp_ok [simp]: "icmp_ok (zero_icmp\<lparr>icmp_sockfd := fd, icmp_family := f\<rparr>)"
  by (simp add: icmp_ok_def zero_icmp_def)

lemma ls_icmp_open_ok:
  assumes "ls_icmp_open family icmp w = (r, icmp', w')" and "icmp_ok icmp"
  shows "icmp_ok icmp'"
    and "r = Inr () \<Longrightarrow> icmp_opened icmp' \<and> icmp_family icmp' = family \<and> icmp_sequence icmp' = 0"
  using assms
  by (auto simp: ls_icmp_open_def ls_err_set_def icmp_ok_def zero_icmp_def Let_def
      split: if_splits sum.splits prod.splits)

lemma ls_icmp_open_evolves [frame]:
  assumes "ls_icmp_open family icmp v = (r, icmp', w')" and "evolves P w v"
    and "\<And>fd. P (Open_fd fd)" and "\<And>f. P (Attach_filter f)"
  shows "evolves P w w'"
  using assms
  by (auto simp: ls_icmp_open_def ls_err_set_def attach_family_filter_def attach_bpf_filter_def Let_def ask_def
      intro!: evolves_emit evolves_tick split: if_splits sum.splits prod.splits)

lemma ls_icmp_close_ok: "ls_icmp_close icmp w = (icmp', w') \<Longrightarrow> icmp_ok icmp \<Longrightarrow> icmp_ok icmp'"
  by (auto simp: ls_icmp_close_def icmp_ok_def)

lemma ls_icmp_close_evolves [frame]:
  assumes "ls_icmp_close icmp v = (icmp', w')" and "evolves P w v" and "\<And>fd. P (Close_fd fd)"
  shows "evolves P w w'"
  using assms by (auto simp: ls_icmp_close_def Let_def split: if_splits)

text \<open>The transport is open and speaks the protocol of the destination.\<close>

definition icmp_usable :: "ls_icmp_t \<Rightarrow> sockaddr_storage \<Rightarrow> bool" where
  "icmp_usable icmp dest \<longleftrightarrow>
     icmp_opened icmp \<and> 0 \<le> icmp_sockfd icmp \<and> (ss_family dest = AF_INET \<or> ss_family dest = AF_INET6) \<and>
     ss_family dest = icmp_family icmp"

lemma icmp_usable_cong:
  "icmp_sockfd i = icmp_sockfd j \<Longrightarrow> icmp_opened i = icmp_opened j \<Longrightarrow> icmp_family i = icmp_family j \<Longrightarrow>
     icmp_usable i dest = icmp_usable j dest"
  by (simp add: icmp_usable_def)

lemma ls_icmp_open_usable: "ls_icmp_open (ss_family dest) icmp w = (Inr (), icmp', w') \<Longrightarrow> icmp_usable icmp' dest"
  by (auto simp: ls_icmp_open_def icmp_usable_def ls_err_set_def Let_def split: if_splits sum.splits prod.splits)

text \<open>The status that an answer of \<^verbatim>\<open>sendto\<close> stands for.\<close>

definition send_status :: "nat \<Rightarrow> errno + nat \<Rightarrow> ls_icmp_send_status_t" where
  "send_status len r =
     (case r of Inl e \<Rightarrow> if send_error_is_network_condition e then LS_ICMP_SEND_UNREACHABLE else LS_ICMP_SEND_ERROR
      | Inr n \<Rightarrow> if n = len then LS_ICMP_SEND_OK else LS_ICMP_SEND_ERROR)"

lemma send_status_eq:
  "send_status len r = LS_ICMP_SEND_OK \<longleftrightarrow> r = Inr len"
  "send_status len r = LS_ICMP_SEND_UNREACHABLE \<longleftrightarrow> (\<exists>e. r = Inl e \<and> send_error_is_network_condition e)"
  by (auto simp: send_status_def split: sum.splits)

lemma network_condition_iff:
  "send_error_is_network_condition e \<longleftrightarrow>
     e \<in> {ENETUNREACH, EHOSTUNREACH, ENETDOWN, EHOSTDOWN, ENETRESET, ENOBUFS, EAGAIN}"
  by (cases e) (simp_all add: send_error_is_network_condition_def)

text \<open>What one call of \<^verbatim>\<open>ls_icmp_send_echo\<close> may do: refuse without touching anything, or
  advance the sequence and hand exactly one packet to the kernel.\<close>

lemma ls_icmp_send_echo_cases:
  assumes "ls_icmp_send_echo icmp dest dest_len identifier len w = (st, err, icmp', w')"
  obtains (refused) "st = LS_ICMP_SEND_ERROR" "icmp' = icmp" "w' = w" "\<not> (icmp_usable icmp dest \<and> 8 \<le> len \<and> len \<le> 256)"
  | (sent) r where "icmp_usable icmp dest" "8 \<le> len" "len \<le> 256"
      "icmp' = icmp\<lparr>icmp_sequence := next_sequence (icmp_sequence icmp),
         send_buf := build_echo (os_big_endian (world_os w)) (icmp_family icmp) identifier
           (next_sequence (icmp_sequence icmp)) len (send_buf icmp)\<rparr>"
      "r = settle (os_sendto (world_os w) (tick w))"
      "w' = emit (Echo_send (echo_packet (os_big_endian (world_os w)) (icmp_family icmp) identifier
           (next_sequence (icmp_sequence icmp)) len) dest dest_len r) (w\<lparr>tick := Suc (tick w)\<rparr>)"
      "st = send_status len r"
proof (cases "icmp_usable icmp dest \<and> 8 \<le> len \<and> len \<le> 256")
  case False
  with assms have "st = LS_ICMP_SEND_ERROR \<and> icmp' = icmp \<and> w' = w"
    unfolding ls_icmp_send_echo_def icmp_usable_def sizeof_echo_header_def LS_ICMP_SEND_BUFFER_SIZE_def
    by (auto split: if_splits)
  then show ?thesis using refused False by blast
next
  case True
  then have len: "8 \<le> len" "len \<le> 256" by simp_all
  have ep: "take len (build_echo big f i s len buf) = echo_packet big f i s len" for big f i s buf
    using len(1) by (simp add: build_echo_packet)
  show ?thesis
    by (rule sent [OF _ len _ refl])
      (use True assms in \<open>auto simp: icmp_usable_def sizeof_echo_header_def LS_ICMP_SEND_BUFFER_SIZE_def
        ls_icmp_send_echo_def send_status_def Let_def ask_def ep split: sum.splits if_splits\<close>)
qed

lemma ls_icmp_send_echo_keeps:
  assumes "ls_icmp_send_echo icmp dest dest_len identifier len w = (st, err, icmp', w')"
  shows "icmp_sockfd icmp' = icmp_sockfd icmp" "icmp_opened icmp' = icmp_opened icmp" "icmp_family icmp' = icmp_family icmp"
  using assms by (cases rule: ls_icmp_send_echo_cases; simp)+

text \<open>Which answer of the kernel a status stands for.\<close>

lemma ls_icmp_send_echo_answer:
  assumes "ls_icmp_send_echo icmp dest dest_len identifier len w = (st, err, icmp', w')"
  shows "case st of
      LS_ICMP_SEND_OK \<Rightarrow> icmp_sequence icmp' = next_sequence (icmp_sequence icmp) \<and>
        settle (os_sendto (world_os w) (tick w)) = Inr len \<and>
        (\<exists>pkt. length pkt = len \<and> w' = emit (Echo_send pkt dest dest_len (Inr len)) (w\<lparr>tick := Suc (tick w)\<rparr>))
    | LS_ICMP_SEND_UNREACHABLE \<Rightarrow> \<exists>pkt e. send_error_is_network_condition e \<and> length pkt = len \<and>
        w' = emit (Echo_send pkt dest dest_len (Inl e)) (w\<lparr>tick := Suc (tick w)\<rparr>)
    | LS_ICMP_SEND_ERROR \<Rightarrow> icmp_usable icmp dest \<and> 8 \<le> len \<and> len \<le> 256 \<longrightarrow>
        send_status len (settle (os_sendto (world_os w) (tick w))) = LS_ICMP_SEND_ERROR"
  using assms
proof (cases rule: ls_icmp_send_echo_cases)
  case refused
  then show ?thesis by auto
next
  case (sent r)
  define pkt where "pkt = echo_packet (os_big_endian (world_os w)) (icmp_family icmp) identifier (next_sequence (icmp_sequence icmp)) len"
  have "length pkt = len" using sent(2) by (simp add: pkt_def)
  moreover have "icmp_sequence icmp' = next_sequence (icmp_sequence icmp)" using sent(4) by simp
  ultimately show ?thesis
    unfolding sent(6) pkt_def [symmetric] sent(7)
    using send_status_eq [of len r] sent(5) by (cases "send_status len r") (auto, blast)
qed

lemma ls_icmp_send_echo_ok:
  assumes "ls_icmp_send_echo icmp dest dest_len identifier len w = (st, err, icmp', w')" and "icmp_ok icmp"
  shows "icmp_ok icmp'"
  using assms(1)
  by (cases rule: ls_icmp_send_echo_cases)
    (use assms(2) in \<open>auto simp: icmp_ok_def build_echo_packet LS_ICMP_SEND_BUFFER_SIZE_def\<close>)

lemma ls_icmp_send_echo_evolves [frame]:
  assumes "ls_icmp_send_echo icmp dest dest_len identifier len v = (st, err, icmp', w')" and "evolves P w v"
    and "\<And>p r. length p = len \<Longrightarrow> P (Echo_send p dest dest_len r)"
  shows "evolves P w w'"
  using assms(1) by (cases rule: ls_icmp_send_echo_cases) (use assms(2,3) length_echo_packet in auto)


text \<open>One call of \<^verbatim>\<open>ls_icmp_recv\<close> changes nothing but the receive buffer, and reports a match
  only for a packet from the destination that carries the expected identifier and sequence.\<close>

lemma ls_icmp_recv_cases:
  assumes "ls_icmp_recv icmp dest identifier seq w = (st, err, icmp', w')"
  obtains (refused) "st = LS_ICMP_RECV_ERROR" "icmp' = icmp" "w' = w" "\<not> icmp_usable icmp dest"
  | (failed) e where "os_recvfrom (world_os w) (tick w) = Inl e" "icmp' = icmp" "w' = w\<lparr>tick := Suc (tick w)\<rparr>"
      "st = (if e = EAGAIN \<or> e = EINTR then LS_ICMP_RECV_NO_MORE else LS_ICMP_RECV_ERROR)"
  | (packet) data src got where "os_recvfrom (world_os w) (tick w) = Inr (data, src)"
      "got = take LS_ICMP_RECV_BUFFER_SIZE data" "ss_family dest = icmp_family icmp"
      "icmp' = icmp\<lparr>recv_buf := got @ drop (length got) (recv_buf icmp)\<rparr>"
      "w' = emit Recv_packet (w\<lparr>tick := Suc (tick w)\<rparr>)"
      "st = (if got \<noteq> [] \<and> source_matches dest src \<and> reply_matches (os_big_endian (world_os w)) (recv_buf icmp')
               (length got) (ss_family dest) identifier seq then LS_ICMP_RECV_MATCHED else LS_ICMP_RECV_IGNORED)"
proof (cases "icmp_usable icmp dest")
  case False
  with assms have "st = LS_ICMP_RECV_ERROR \<and> icmp' = icmp \<and> w' = w"
    unfolding ls_icmp_recv_def icmp_usable_def by (auto split: if_splits)
  then show ?thesis using refused False by blast
next
  case True
  show ?thesis
  proof (cases "os_recvfrom (world_os w) (tick w)")
    case (Inl e)
    show ?thesis
      by (rule failed [OF Inl]) (use True Inl assms in \<open>auto simp: icmp_usable_def ls_icmp_recv_def ask_def split: if_splits\<close>)
  next
    case (Inr p)
    obtain data src where p: "p = (data, src)" by (cases p)
    show ?thesis
      by (rule packet [OF Inr [unfolded p] refl])
        (use True Inr assms in \<open>auto simp: icmp_usable_def p ls_icmp_recv_def ask_def Let_def split: if_splits\<close>)
  qed
qed

lemma ls_icmp_recv_ok:
  assumes "ls_icmp_recv icmp dest identifier seq w = (st, err, icmp', w')" and "icmp_ok icmp"
  shows "icmp_ok icmp'" and "icmp_sequence icmp' = icmp_sequence icmp" and "icmp_opened icmp' = icmp_opened icmp"
    and "icmp_sockfd icmp' = icmp_sockfd icmp" and "icmp_family icmp' = icmp_family icmp"
  using assms(1) by (cases rule: ls_icmp_recv_cases; use assms(2) in \<open>auto simp: icmp_ok_def\<close>)+

lemma ls_icmp_recv_evolves [frame]:
  assumes "ls_icmp_recv icmp dest identifier seq v = (st, err, icmp', w')" and "evolves P w v"
    and "P Recv_packet"
  shows "evolves P w w'"
  using assms(1) by (cases rule: ls_icmp_recv_cases) (use assms(2,3) in auto)

text \<open>What makes a packet the reply of a probe. Only the received bytes count, not what the buffer held
  before.\<close>

definition is_reply :: "bool \<Rightarrow> sockaddr_storage \<Rightarrow> u16 \<Rightarrow> u16 \<Rightarrow> u8 list \<times> sockaddr_storage \<Rightarrow> bool" where
  "is_reply big dest identifier seq p \<longleftrightarrow>
     (let got = take LS_ICMP_RECV_BUFFER_SIZE (fst p)
      in got \<noteq> [] \<and> source_matches dest (snd p) \<and> reply_matches big got (length got) (ss_family dest) identifier seq)"

lemma reply_matches_prefix:
  "reply_matches big (got @ rest) (length got) family identifier seq = reply_matches big got (length got) family identifier seq"
  by (auto simp: reply_matches_def Let_def nth_append sizeof_ip_def sizeof_echo_header_def)

lemma ls_icmp_recv_packet:
  assumes "icmp_usable icmp dest" "os_recvfrom (world_os w) (tick w) = Inr p"
    "ls_icmp_recv icmp dest identifier seq w = (st, err, icmp', w')"
  shows "st = (if is_reply (os_big_endian (world_os w)) dest identifier seq p then LS_ICMP_RECV_MATCHED else LS_ICMP_RECV_IGNORED) \<and>
    icmp_usable icmp' dest \<and> w' = emit Recv_packet (w\<lparr>tick := Suc (tick w)\<rparr>)"
  using assms(3)
proof (cases rule: ls_icmp_recv_cases)
  case (packet data src got)
  have p: "p = (data, src)" using packet(1) assms(2) by simp
  have "icmp_usable icmp' dest" using assms(1) icmp_usable_cong [of icmp' icmp dest] packet(4) by simp
  moreover have "reply_matches big (recv_buf icmp') (length got) family identifier seq =
      reply_matches big got (length got) family identifier seq" for big family
    unfolding packet(4) by (simp add: reply_matches_prefix)
  ultimately show ?thesis
    using packet(5,6) unfolding p is_reply_def packet(2) [symmetric] fst_conv snd_conv Let_def by simp
qed (use assms(1,2) in simp_all)

section \<open>The filter\<close>

lemma ip_header_length: "unat (((ucast (b :: u8) :: u32) AND 0x0f) * 4) = unat (b AND 0x0f) * 4"
proof -
  have "(ucast b :: u32) AND 0x0f = ucast (b AND 0x0f)"
    by (simp add: unsigned_and_eq)
  moreover have "unat (b AND 0x0f) < 256"
    by (rule unat_bounds)
  ultimately show ?thesis
    by (simp add: unat_word_ariths unat_ucast_u32)
qed

lemma ucast_u8_eq [simp]: "(ucast (a :: u8) :: u32) = ucast b \<longleftrightarrow> a = b"
  by (metis unat_ucast_u32(2) word_unat_eq_iff)

lemma filter_accepts:
  "bpf_run (family_filter family) 0 0 pkt \<noteq> 0 \<longleftrightarrow>
     (if family = AF_INET
      then pkt \<noteq> [] \<and> (let h = unat (pkt ! 0 AND 0x0f) * 4 in h < length pkt \<and> pkt ! h = ICMP_ECHOREPLY)
      else pkt \<noteq> [] \<and> pkt ! 0 = ICMP6_ECHO_REPLY)"
  by (auto simp: family_filter_def ip_header_length Let_def)

section \<open>Sequence numbers\<close>

lemma next_sequence_nonzero [simp]: "next_sequence s \<noteq> 0"
proof (cases "s = 0xFFFF")
  case False
  then have "unat s \<noteq> 65535"
    by (simp add: word_unat_eq_iff)
  with unat_bounds(2) [of s] have "unat (s + 1) = unat s + 1"
    by (simp add: unat_word_ariths)
  with False show ?thesis
    by (auto simp: next_sequence_def word_unat_eq_iff)
qed (simp add: next_sequence_def)

lemma unat_next_sequence: "s \<noteq> 0 \<Longrightarrow> unat (next_sequence s) = unat s mod 65535 + 1"
proof -
  assume "s \<noteq> 0"
  show ?thesis
  proof (cases "s = 0xFFFF")
    case False
    then have "unat s \<noteq> 65535"
      by (simp add: word_unat_eq_iff)
    with unat_bounds(2) [of s] have "unat s < 65535" by linarith
    with False show ?thesis
      by (simp add: next_sequence_def unat_word_ariths)
  qed (simp add: next_sequence_def)
qed

lemma unat_next_sequence_mod: "unat (next_sequence s) = unat s mod 65535 + 1"
proof (cases "s = 0")
  case False
  then show ?thesis by (rule unat_next_sequence)
qed (simp add: next_sequence_def)

lemma unat_next_sequence_iterate:
  "s \<noteq> 0 \<Longrightarrow> (next_sequence ^^ k) s \<noteq> 0 \<and> unat ((next_sequence ^^ k) s) = (unat s - 1 + k) mod 65535 + 1"
proof (induction k)
  case 0
  then show ?case
    using unat_bounds(2) [of s] by (simp add: unat_eq_0 [symmetric] del: unat_eq_0)
next
  case (Suc k)
  then have "unat ((next_sequence ^^ Suc k) s) = ((unat s - 1 + k) mod 65535 + 1) mod 65535 + 1"
    by (simp add: unat_next_sequence)
  then show ?case
    by (simp add: mod_Suc_eq)
qed

section \<open>A reply to a request\<close>

text \<open>The answer of a host that mirrors the request, as RFC 792 and RFC 4443 describe it: the type
  becomes that of a reply, the checksum is recomputed, everything else is copied. An IPv4 raw socket
  delivers it behind its IP header.\<close>

definition mirrored :: "nat \<Rightarrow> u8 \<Rightarrow> u8 \<Rightarrow> u8 list \<Rightarrow> u8 list" where
  "mirrored family c1 c2 request =
     [if family = AF_INET then ICMP_ECHOREPLY else ICMP6_ECHO_REPLY, 0, c1, c2] @ drop 4 request"

definition ipv4_header :: "u8 list \<Rightarrow> bool" where
  "ipv4_header hdr \<longleftrightarrow>
     20 \<le> length hdr \<and> length hdr = unat (hdr ! 0 AND 0x0f) * 4 \<and> hdr ! 9 = IPPROTO_ICMP"

lemma drop_echo_packet:
  "drop 4 (echo_packet big family i s len) =
     [hi8 i, lo8 i, hi8 s, lo8 s] @ map (\<lambda>k. of_nat k AND 0xFF) [0..<len - 8]"
  by (simp add: echo_packet_def Let_def sizeof_echo_header_def)

lemma echo_packet_bytes:
  assumes "8 \<le> len"
  shows "echo_packet big family identifier seq len ! 0 = (if family = AF_INET6 then 128 else 8)"
    "echo_packet big family identifier seq len ! 1 = 0"
    "unat (echo_packet big family identifier seq len ! 4) * 256 + unat (echo_packet big family identifier seq len ! 5) = unat identifier"
    "unat (echo_packet big family identifier seq len ! 6) * 256 + unat (echo_packet big family identifier seq len ! 7) = unat seq"
    "drop 8 (echo_packet big family identifier seq len) = map of_nat [0..<len - 8]"
    "family = AF_INET6 \<Longrightarrow> echo_packet big family identifier seq len ! 2 = 0 \<and> echo_packet big family identifier seq len ! 3 = 0"
proof -
  let ?pkt = "echo_packet big family identifier seq len"
  have low: "of_nat i AND 0xFF = (of_nat i :: u8)" for i
  proof -
    have "(0xFF :: u8) = - 1" by simp
    then show ?thesis by (simp only: and.right_neutral)
  qed
  have nth: "?pkt ! k = drop 4 ?pkt ! (k - 4)" if "4 \<le> k" for k
    using that assms by simp
  show "unat (?pkt ! 4) * 256 + unat (?pkt ! 5) = unat identifier" "unat (?pkt ! 6) * 256 + unat (?pkt ! 7) = unat seq"
    unfolding unat_be16 [symmetric] by (simp_all add: nth drop_echo_packet)
  have "drop 8 ?pkt = drop 4 (drop 4 ?pkt)" by simp
  then show "drop 8 ?pkt = map of_nat [0..<len - 8]"
    unfolding drop_echo_packet low by simp
qed (simp_all add: echo_packet_def Let_def ICMP_ECHO_def ICMP6_ECHO_REQUEST_def)

lemma reply_matches_ipv4:
  assumes "ipv4_header hdr"
  shows "reply_matches big (hdr @ mirrored AF_INET c1 c2 (echo_packet big' AF_INET i s len) @ rest)
           (length hdr + len) AF_INET identifier seq \<longleftrightarrow> 8 \<le> len \<and> identifier = i \<and> seq = s"
  using assms unfolding ipv4_header_def
  by (auto simp: reply_matches_def mirrored_def drop_echo_packet nth_append sizeof_ip_def sizeof_echo_header_def)

lemma reply_matches_ipv6:
  shows "reply_matches big (mirrored AF_INET6 c1 c2 (echo_packet big' AF_INET6 i s len) @ rest)
           len AF_INET6 identifier seq \<longleftrightarrow> 8 \<le> len \<and> identifier = i \<and> seq = s"
  by (auto simp: reply_matches_def mirrored_def drop_echo_packet sizeof_echo_header_def AF_INET_def AF_INET6_def)

section \<open>Properties\<close>

text \<open>C28: Every echo request is well formed on the wire. A call of \<^verbatim>\<open>ls_icmp_send_echo\<close>
  refuses, without touching anything, exactly when the socket is not open, the address family is not
  the socket's or the length is not between 8 and 256. Otherwise it hands the kernel exactly one packet
  for the given destination, of the requested length: the type byte is that of an echo request (8, or
  128 for ICMPv6), the code 0, identifier and sequence stand in network byte order on hosts of either
  endianness, the sequence is the next one of the cycle 1..65535 and is stored, the payload counts up
  from 0. The ICMPv6 checksum is left 0 for the kernel; over an IPv4 packet the one's-complement sum of
  RFC 1071 is all ones, for every length on a little-endian host and for every even length (the daemon
  sends 64 bytes) on a big-endian one. The status is that of the kernel's answer: a routing or link
  error is a network condition, a short send an error.\<close>
theorem echo_request_wellformed:
  assumes "ls_icmp_send_echo icmp dest dest_len identifier len w = (st, err, icmp', w')"
  shows "if icmp_opened icmp \<and> 0 \<le> icmp_sockfd icmp \<and> ss_family dest \<in> {AF_INET, AF_INET6} \<and>
        icmp_family icmp = ss_family dest \<and> 8 \<le> len \<and> len \<le> 256
    then \<exists>pkt r. trace w' = trace w @ [Echo_send pkt dest dest_len r] \<and> length pkt = len \<and>
       pkt ! 0 = (if ss_family dest = AF_INET6 then 128 else 8) \<and> pkt ! 1 = 0 \<and>
       unat (pkt ! 4) * 256 + unat (pkt ! 5) = unat identifier \<and>
       unat (pkt ! 6) * 256 + unat (pkt ! 7) = unat (icmp_sequence icmp') \<and>
       unat (icmp_sequence icmp') = unat (icmp_sequence icmp) mod 65535 + 1 \<and>
       drop 8 pkt = map of_nat [0..<len - 8] \<and>
       (ss_family dest = AF_INET6 \<longrightarrow> pkt ! 2 = 0 \<and> pkt ! 3 = 0) \<and>
       (ss_family dest = AF_INET \<and> (even len \<or> \<not> os_big_endian (world_os w)) \<longrightarrow> rfc1071_sum pkt = 65535) \<and>
       (st = LS_ICMP_SEND_OK \<longleftrightarrow> r = Inr len) \<and>
       (st = LS_ICMP_SEND_UNREACHABLE \<longleftrightarrow>
          r \<in> Inl ` {ENETUNREACH, EHOSTUNREACH, ENETDOWN, EHOSTDOWN, ENETRESET, ENOBUFS, EAGAIN})
    else st = LS_ICMP_SEND_ERROR \<and> icmp' = icmp \<and> w' = w"
  using assms
proof (cases rule: ls_icmp_send_echo_cases)
  case refused
  then show ?thesis by (auto simp: icmp_usable_def)
next
  case (sent r)
  let ?pkt = "echo_packet (os_big_endian (world_os w)) (icmp_family icmp) identifier
    (next_sequence (icmp_sequence icmp)) len"
  have fam: "icmp_family icmp = ss_family dest" using sent(1) by (simp add: icmp_usable_def)
  note bytes = echo_packet_bytes [OF sent(2)]
  have status: "(st = LS_ICMP_SEND_OK \<longleftrightarrow> r = Inr len) \<and> (st = LS_ICMP_SEND_UNREACHABLE \<longleftrightarrow>
      r \<in> Inl ` {ENETUNREACH, EHOSTUNREACH, ENETDOWN, EHOSTDOWN, ENETRESET, ENOBUFS, EAGAIN})"
    unfolding sent(7) send_status_eq network_condition_iff by auto
  have "trace w' = trace w @ [Echo_send ?pkt dest dest_len r]" using sent(6) by simp
  moreover have "rfc1071_sum ?pkt = 65535" if "ss_family dest = AF_INET" "even len \<or> \<not> os_big_endian (world_os w)"
    using echo_packet_rfc1071 [OF sent(2)] that sent(3) fam by simp
  ultimately show ?thesis
    using sent(1-4) status bytes fam by (auto simp: icmp_usable_def unat_next_sequence_mod)
qed

theorem echo_request_wellformed_witness:
  "\<exists>pkt. trace (snd (snd (snd (ls_icmp_send_echo
      (zero_icmp\<lparr>icmp_sockfd := 5, icmp_opened := True, icmp_family := AF_INET\<rparr>)
      (zero_sockaddr\<lparr>ss_family := AF_INET\<rparr>) 16 7 64 (boot sample_os))))) = [Echo_send pkt (zero_sockaddr\<lparr>ss_family := AF_INET\<rparr>) 16 (Inr 64)] \<and>
    length pkt = 64 \<and> rfc1071_sum pkt = 65535"
proof -
  let ?icmp = "zero_icmp\<lparr>icmp_sockfd := 5, icmp_opened := True, icmp_family := AF_INET\<rparr>"
  let ?dest = "zero_sockaddr\<lparr>ss_family := AF_INET\<rparr>"
  obtain st err icmp' w' where c: "ls_icmp_send_echo ?icmp ?dest 16 7 64 (boot sample_os) = (st, err, icmp', w')"
    by (metis prod_cases4)
  have st: "st = LS_ICMP_SEND_OK"
    using c by (auto simp: ls_icmp_send_echo_def Let_def ask_def sizeof_echo_header_def
        LS_ICMP_SEND_BUFFER_SIZE_def)
  from echo_request_wellformed [OF c] st show ?thesis
    by (auto simp: c)
qed

text \<open>C29: Requests and replies fit together. Take the packet a call of \<^verbatim>\<open>ls_icmp_send_echo\<close>
  hands to the kernel. The reply of a host that mirrors it (behind any IPv4 header, with or without
  options, or as the bare ICMPv6 message) is accepted by \<^verbatim>\<open>reply_matches\<close> for exactly one
  identifier and sequence: the identifier given to the call and the sequence the call stored in the
  transport. This holds for either byte order of the hosts and whatever else the buffers hold.\<close>
theorem reply_roundtrip:
  assumes "ls_icmp_send_echo icmp dest dest_len i len w = (st, err, icmp', w')"
    and "trace w' = trace w @ [Echo_send pkt dest dest_len r]"
    and "ipv4_header hdr"
  shows "if ss_family dest = AF_INET
    then reply_matches big (hdr @ mirrored AF_INET c1 c2 pkt @ rest) (length hdr + len) AF_INET identifier seq \<longleftrightarrow>
      identifier = i \<and> seq = icmp_sequence icmp'
    else reply_matches big (mirrored AF_INET6 c1 c2 pkt @ rest) len AF_INET6 identifier seq \<longleftrightarrow>
      identifier = i \<and> seq = icmp_sequence icmp'"
  using assms(1)
proof (cases rule: ls_icmp_send_echo_cases)
  case refused
  then show ?thesis using assms(2) by simp
next
  case (sent r')
  have fam: "icmp_family icmp = ss_family dest" "ss_family dest \<noteq> AF_INET \<Longrightarrow> ss_family dest = AF_INET6"
    using sent(1) by (auto simp: icmp_usable_def)
  have "pkt = echo_packet (os_big_endian (world_os w)) (ss_family dest) i (icmp_sequence icmp') len"
    using assms(2) sent(4,6) fam(1) by simp
  then show ?thesis
    using sent(2) fam(2) assms(3) by (auto simp: reply_matches_ipv4 reply_matches_ipv6)
qed

theorem reply_roundtrip_witness:
  "\<exists>pkt. trace (snd (snd (snd (ls_icmp_send_echo
      (zero_icmp\<lparr>icmp_sockfd := 5, icmp_opened := True, icmp_family := AF_INET, icmp_sequence := 2\<rparr>)
      (zero_sockaddr\<lparr>ss_family := AF_INET\<rparr>) 16 7 64 (boot sample_os))))) = [Echo_send pkt (zero_sockaddr\<lparr>ss_family := AF_INET\<rparr>) 16 (Inr 64)] \<and>
    reply_matches False ([0x45, 0, 0, 84, 0, 0, 0, 0, 64, 1, 0, 0, 1, 1, 1, 1, 10, 0, 0, 1] @ mirrored AF_INET 9 9 pkt @ []) (20 + 64) AF_INET 7 3"
proof -
  let ?hdr = "[0x45, 0, 0, 84, 0, 0, 0, 0, 64, 1, 0, 0, 1, 1, 1, 1, 10, 0, 0, 1] :: u8 list"
  let ?icmp = "zero_icmp\<lparr>icmp_sockfd := 5, icmp_opened := True, icmp_family := AF_INET, icmp_sequence := 2\<rparr>"
  let ?dest = "zero_sockaddr\<lparr>ss_family := AF_INET\<rparr>"
  have h: "ipv4_header ?hdr"
    by (simp add: ipv4_header_def IPPROTO_ICMP_def)
  obtain st err icmp' w' where c: "ls_icmp_send_echo ?icmp ?dest 16 7 64 (boot sample_os) = (st, err, icmp', w')"
    by (metis prod_cases4)
  obtain pkt where t: "trace w' = trace (boot sample_os) @ [Echo_send pkt ?dest 16 (Inr 64)]" and s: "icmp_sequence icmp' = 3"
    using c by (auto simp: ls_icmp_send_echo_def Let_def ask_def sizeof_echo_header_def LS_ICMP_SEND_BUFFER_SIZE_def next_sequence_def)
  from reply_roundtrip [OF c t h, of False 9 9 "[]" 7 3] s t
  show ?thesis by (simp add: c)
qed

text \<open>C30: The kernel filter never hides a reply. Whatever packet \<^verbatim>\<open>reply_matches\<close> would accept,
  the attached BPF program accepts too, and the program accepts a packet only if the type byte behind
  its header is that of an echo reply; so running without the filter (when attaching it fails) or with
  it gives the same matches.\<close>
theorem bpf_filter_transparent:
  assumes "n \<le> length buf"
  shows "(reply_matches big buf n family identifier seq \<longrightarrow>
      bpf_run (family_filter family) 0 0 (take n buf) \<noteq> 0) \<and>
    (bpf_run (family_filter family) 0 0 pkt \<noteq> 0 \<longrightarrow>
      (if family = AF_INET then pkt ! (unat (pkt ! 0 AND 0x0f) * 4) = ICMP_ECHOREPLY
       else pkt ! 0 = ICMP6_ECHO_REPLY))"
  using assms unfolding filter_accepts
  by (auto simp: reply_matches_def Let_def sizeof_ip_def sizeof_echo_header_def split: if_splits)

theorem bpf_filter_transparent_witness:
  "bpf_run (family_filter AF_INET6) 0 0 (take 8 [129, 0, 0, 0, 0, 7, 0, 3]) \<noteq> 0"
  using bpf_filter_transparent [of 8 "[129, 0, 0, 0, 0, 7, 0, 3]" False AF_INET6 7 3 "[]"]
  by (simp add: reply_matches_def sizeof_echo_header_def ICMP6_ECHO_REPLY_def be16_def)

text \<open>C31: A stale reply never matches. After \<open>k\<close> further probes, for \<open>k\<close> up to 65534, the sequence
  differs from the one of the earlier probe, and it is never the 0 that marks an idle monitor.\<close>
theorem sequence_fresh:
  assumes "s \<noteq> 0" and "0 < k" and "k < 65535"
  shows "(next_sequence ^^ k) s \<noteq> s \<and> (next_sequence ^^ k) s \<noteq> 0"
proof -
  have s: "unat s \<le> 65535" "unat s \<noteq> 0"
    using unat_bounds(2) [of s] assms(1) by (simp_all add: unat_eq_0)
  have "(unat s - 1 + k) mod 65535 + 1 \<noteq> unat s"
  proof (cases "unat s - 1 + k < 65535")
    case False
    then have "(unat s - 1 + k) mod 65535 = unat s - 1 + k - 65535"
      using s assms(3) by (simp add: mod_if)
    with False s assms show ?thesis by linarith
  qed (use s assms in simp)
  then show ?thesis
    using unat_next_sequence_iterate [OF assms(1), of k] by metis
qed

theorem sequence_fresh_witness: "(next_sequence ^^ 65534) 1 \<noteq> 1"
  using sequence_fresh [of 1 65534] by simp

text \<open>C32: A match is sound. \<^verbatim>\<open>ls_icmp_recv\<close> reports a match only when one packet was received,
  its source has the family of the probed address and the very same IPv4 or IPv6 address bytes, and it
  is an echo reply (type 0, or 129 for ICMPv6) with the expected identifier and sequence, in network
  byte order, in the bytes received by this very call (not in bytes left over in the buffer).\<close>
theorem recv_match_sound:
  assumes "ls_icmp_recv icmp dest identifier seq w = (LS_ICMP_RECV_MATCHED, err, icmp', w')"
  shows "\<exists>data src. os_recvfrom (world_os w) (tick w) = Inr (data, src) \<and>
    ss_family src = ss_family dest \<and>
    (if ss_family dest = AF_INET then sin_addr src = sin_addr dest else sin6_addr src = sin6_addr dest) \<and>
    trace w' = trace w @ [Recv_packet] \<and>
    (let h = (if ss_family dest = AF_INET then unat (data ! 0 AND 0x0f) * 4 else 0)
     in h + 8 \<le> min 1500 (length data) \<and>
        data ! h = (if ss_family dest = AF_INET then 0 else 129) \<and>
        unat (data ! (h + 4)) * 256 + unat (data ! (h + 5)) = unat identifier \<and>
        unat (data ! (h + 6)) * 256 + unat (data ! (h + 7)) = unat seq)"
  using assms
proof (cases rule: ls_icmp_recv_cases)
  case (packet data src got)
  then have m: "source_matches dest src" "reply_matches (os_big_endian (world_os w)) (recv_buf icmp') (length got)
      (ss_family dest) identifier seq"
    by (simp_all split: if_splits)
  have nth: "recv_buf icmp' ! k = data ! k" if "k < length got" for k
    using packet that by (simp add: nth_append)
  have got: "length got = min 1500 (length data)"
    using packet(2) by (simp add: LS_ICMP_RECV_BUFFER_SIZE_def min.commute)
  have "0 < length got"
    using m(2) by (auto simp: reply_matches_def sizeof_ip_def sizeof_echo_header_def split: if_splits)
  then have nth0: "recv_buf icmp' ! 0 = data ! 0"
    by (rule nth)
  show ?thesis
  proof (intro exI conjI)
    show "os_recvfrom (world_os w) (tick w) = Inr (data, src)" by (rule packet)
    show "ss_family src = ss_family dest"
      "if ss_family dest = AF_INET then sin_addr src = sin_addr dest else sin6_addr src = sin6_addr dest"
      using m(1) by (simp_all add: source_matches_def split: if_splits)
    show "trace w' = trace w @ [Recv_packet]" using packet by simp
  qed (use m(2) nth nth0 in \<open>auto simp: got [symmetric] reply_matches_def Let_def sizeof_ip_def sizeof_echo_header_def
      ICMP_ECHOREPLY_def ICMP6_ECHO_REPLY_def unat_be16 [symmetric] split: if_splits\<close>)
qed (simp_all split: if_splits)

theorem recv_match_sound_witness:
  "\<exists>data src. os_recvfrom (sample_os\<lparr>os_recvfrom := \<lambda>_. Inr ([129, 0, 0, 0, 0, 7, 0, 3], zero_sockaddr\<lparr>ss_family := AF_INET6\<rparr>)\<rparr>) 0
     = Inr (data, src) \<and> data ! 0 = ICMP6_ECHO_REPLY"
proof -
  let ?sys = "sample_os\<lparr>os_recvfrom := \<lambda>_. Inr ([129, 0, 0, 0, 0, 7, 0, 3], zero_sockaddr\<lparr>ss_family := AF_INET6\<rparr>)\<rparr>"
  let ?icmp = "zero_icmp\<lparr>icmp_sockfd := 5, icmp_opened := True, icmp_family := AF_INET6\<rparr>"
  let ?dest = "zero_sockaddr\<lparr>ss_family := AF_INET6\<rparr>"
  have "fst (ls_icmp_recv ?icmp ?dest 7 3 (boot ?sys)) = LS_ICMP_RECV_MATCHED"
    by (simp add: ls_icmp_recv_def ask_def Let_def source_matches_def reply_matches_def sizeof_echo_header_def
        LS_ICMP_RECV_BUFFER_SIZE_def ICMP6_ECHO_REPLY_def be16_def)
  then obtain err icmp' w' where
    "ls_icmp_recv ?icmp ?dest 7 3 (boot ?sys) = (LS_ICMP_RECV_MATCHED, err, icmp', w')"
    by (metis prod.collapse)
  from recv_match_sound [OF this] show ?thesis
    by (auto simp: ICMP6_ECHO_REPLY_def)
qed

end
