(* ===== verification/LS_Notify.thy ===== *)
theory LS_Notify
  imports LS_Base
begin

text \<open>
  \<^verbatim>\<open>src/notify.h\<close> and \<^verbatim>\<open>src/notify.c\<close>: the sd_notify channel. A datagram is one
  \<open>Notify_send\<close> effect with the text handed to \<^verbatim>\<open>send\<close> and whether the kernel took it; the
  address given to \<^verbatim>\<open>connect\<close> is a \<open>Connect\<close> effect.
\<close>

section \<open>State\<close>

definition LS_NOTIFY_MESSAGE_SIZE :: nat where "LS_NOTIFY_MESSAGE_SIZE = 256"
definition LS_NOTIFY_STATUS_SIZE :: nat where "LS_NOTIFY_STATUS_SIZE = 240"
definition LS_NOTIFY_DEDUP_WINDOW_MS :: u64 where "LS_NOTIFY_DEDUP_WINDOW_MS = 2000"

record ls_notify_t =
  nt_opened :: bool
  nt_sockfd :: int
  watchdog_usec :: u64
  last_status_ms :: u64
  last_status :: string

definition zero_notify :: ls_notify_t where
  "zero_notify = \<lparr>nt_opened = False, nt_sockfd = 0, watchdog_usec = 0, last_status_ms = 0, last_status = []\<rparr>"

section \<open>Environment contract\<close>

definition parse_uint64 :: "string \<Rightarrow> u64 option" where
  "parse_uint64 value =
     (if value = [] \<or> \<not> is_digit (hd value) then None
      else let (parsed, rest, err) = c_strtoull value
           in if err \<or> rest = value \<or> rest \<noteq> [] then None else Some parsed)"

text \<open>The conversion of a \<^verbatim>\<open>long\<close> to the 32-bit \<^verbatim>\<open>pid_t\<close>.\<close>

definition to_pid_t :: "int \<Rightarrow> int" where
  "to_pid_t v = (v + 2147483648) mod 4294967296 - 2147483648"

definition watchdog_pid_matches_self :: "os \<Rightarrow> bool" where
  "watchdog_pid_matches_self sys =
     (case os_getenv sys ''WATCHDOG_PID'' of
        None \<Rightarrow> True
      | Some pid_str \<Rightarrow>
          (if pid_str = [] then True
           else let (parsed, rest, err) = c_strtol pid_str
                in if err \<or> rest = pid_str \<or> rest \<noteq> [] \<or> parsed \<le> 0 then False
                   else to_pid_t parsed = os_getpid sys))"

definition sizeof_sun_path :: nat where "sizeof_sun_path = 108"
definition offsetof_sun_path :: nat where "offsetof_sun_path = 2"

text \<open>The bytes of \<^verbatim>\<open>sun_path\<close> and the address length; \<open>None\<close> for a path that cannot be used.\<close>

definition build_socket_addr :: "string \<Rightarrow> (string \<times> nat) option" where
  "build_socket_addr path =
     (if path \<noteq> [] \<and> hd path = CHR ''@''
      then let name_len = length (tl path)
           in if name_len = 0 \<or> name_len > sizeof_sun_path - 1 then None
              else Some ([CHR 0x00] @ tl path @ replicate (sizeof_sun_path - 1 - name_len) (CHR 0x00),
                         offsetof_sun_path + 1 + name_len)
      else let path_len = length path
           in if path_len = 0 \<or> path_len \<ge> sizeof_sun_path then None
              else Some (path @ replicate (sizeof_sun_path - path_len) (CHR 0x00),
                         offsetof_sun_path + path_len + 1))"

section \<open>Sending\<close>

definition notify_send :: "ls_notify_t \<Rightarrow> string \<Rightarrow> world \<Rightarrow> bool \<times> world" where
  "notify_send notify message w =
     (if \<not> nt_opened notify then (False, w)
      else let (r, w) = ask os_send w;
               sent = (case settle r of Inl _ \<Rightarrow> False | Inr _ \<Rightarrow> True)
           in (sent, emit (Notify_send message sent) w))"

definition notify_status :: "ls_notify_t \<Rightarrow> string \<Rightarrow> world \<Rightarrow> bool \<times> ls_notify_t \<times> world" where
  "notify_status notify status w =
     (if \<not> nt_opened notify then (False, notify, w)
      else let (now_ms, w) = ls_now_ms w;
               same = (last_status notify = status)
           in if same \<and> last_status_ms notify \<noteq> 0 \<and> now_ms \<noteq> UINT64_MAX \<and>
                 now_ms - last_status_ms notify < LS_NOTIFY_DEDUP_WINDOW_MS
              then (True, notify, w)
              else let message = c_snprintf LS_NOTIFY_MESSAGE_SIZE
                         (''STATUS='' @ take (LS_NOTIFY_STATUS_SIZE - 1) status);
                       (ok, w) = notify_send notify message w;
                       notify = (if ok
                         then notify\<lparr>last_status := c_snprintf LS_NOTIFY_STATUS_SIZE status,
                                     last_status_ms := (if now_ms = UINT64_MAX then 0 else now_ms)\<rparr>
                         else notify)
                   in (ok, notify, w))"

section \<open>Lifecycle\<close>

definition ls_notify_init :: "world \<Rightarrow> (ls_err_t + unit) \<times> ls_notify_t \<times> world" where
  "ls_notify_init w =
     (let notify = zero_notify\<lparr>nt_sockfd := -1\<rparr>; sys = world_os w
      in case os_getenv sys ''NOTIFY_SOCKET'' of
           None \<Rightarrow> (ls_err_set ''NOTIFY_SOCKET is not set; linkstay must run under systemd'', notify, w)
         | Some socket_path \<Rightarrow>
             (let (r, w) = ask os_socket w
              in case r of
                   Inl e \<Rightarrow> (ls_err_set (''Cannot create notify socket: '' @ os_strerror sys e), notify, w)
                 | Inr fd \<Rightarrow>
                     (let w = emit (Open_fd fd) w
                      in case build_socket_addr socket_path of
                           None \<Rightarrow>
                             (ls_err_set (''Invalid NOTIFY_SOCKET path: '' @ socket_path), notify,
                              emit (Close_fd (int fd)) w)
                         | Some (sun_path, addr_len) \<Rightarrow>
                             (let (c, w) = ask os_connect w;
                                  w = emit (Connect sun_path addr_len) w
                              in case c of
                                   Some e \<Rightarrow>
                                     (ls_err_set (''Cannot connect to NOTIFY_SOCKET '' @ socket_path @ '': '' @
                                        os_strerror sys e), notify, emit (Close_fd (int fd)) w)
                                 | None \<Rightarrow>
                                     (let notify = notify\<lparr>nt_sockfd := int fd, nt_opened := True\<rparr>;
                                          notify = (case os_getenv sys ''WATCHDOG_USEC'' of
                                              None \<Rightarrow> notify
                                            | Some watchdog_str \<Rightarrow>
                                                if watchdog_pid_matches_self sys
                                                then (case parse_uint64 watchdog_str of
                                                        None \<Rightarrow> notify
                                                      | Some usec \<Rightarrow> notify\<lparr>watchdog_usec := usec\<rparr>)
                                                else notify)
                                      in (Inr (), notify, w))))))"

definition ls_notify_destroy :: "ls_notify_t \<Rightarrow> world \<Rightarrow> ls_notify_t \<times> world" where
  "ls_notify_destroy notify w =
     (let w = (if nt_opened notify \<and> nt_sockfd notify \<ge> 0 then emit (Close_fd (nt_sockfd notify)) w else w)
      in (notify\<lparr>nt_sockfd := -1, nt_opened := False\<rparr>, w))"

definition ls_notify_ready :: "ls_notify_t \<Rightarrow> world \<Rightarrow> bool \<times> world" where
  "ls_notify_ready notify w = notify_send notify ''READY=1'' w"

definition ls_notify_statusf :: "ls_notify_t \<Rightarrow> string \<Rightarrow> world \<Rightarrow> bool \<times> ls_notify_t \<times> world" where
  "ls_notify_statusf notify text w =
     (let status = c_snprintf LS_NOTIFY_STATUS_SIZE text in notify_status notify status w)"

definition ls_notify_stopping :: "ls_notify_t \<Rightarrow> world \<Rightarrow> bool \<times> world" where
  "ls_notify_stopping notify w = notify_send notify ''STOPPING=1'' w"

definition ls_notify_watchdog :: "ls_notify_t \<Rightarrow> world \<Rightarrow> bool \<times> world" where
  "ls_notify_watchdog notify w =
     (if \<not> nt_opened notify \<or> watchdog_usec notify = 0 then (False, w)
      else notify_send notify ''WATCHDOG=1'' w)"

definition ls_notify_watchdog_interval_ms :: "ls_notify_t \<Rightarrow> u64" where
  "ls_notify_watchdog_interval_ms notify =
     (if \<not> nt_opened notify \<or> watchdog_usec notify = 0 then 0
      else let interval_ms = watchdog_usec notify div (LS_MS_PER_SEC * 2)
           in if interval_ms = 0 then 1 else interval_ms)"

section \<open>Frame\<close>

lemma notify_send_evolves [frame]:
  assumes "notify_send notify msg v = (ok, w')" "evolves P w v" "\<And>b. P (Notify_send msg b)"
  shows "evolves P w w'"
  using assms by (auto simp: notify_send_def ask_def Let_def split: if_splits)

lemma notify_status_evolves:
  assumes "notify_status notify status v = (ok, notify', w')" "evolves P w v"
    "\<And>s b. P (Notify_send (''STATUS='' @ s) b)"
  shows "evolves P w w'"
  using assms
  by (auto simp: notify_status_def notify_send_def ask_def Let_def c_snprintf_def case_prod_unfold
      LS_NOTIFY_MESSAGE_SIZE_def split: if_splits)

lemma ls_notify_statusf_evolves [frame]:
  assumes "ls_notify_statusf notify text v = (ok, notify', w')" "evolves P w v"
    "\<And>s b. P (Notify_send (''STATUS='' @ s) b)"
  shows "evolves P w w'"
  using assms notify_status_evolves by (simp add: ls_notify_statusf_def)

lemma ls_notify_statusf_channel:
  assumes "ls_notify_statusf notify text v = (ok, notify', w')"
  shows "nt_opened notify' = nt_opened notify" "nt_sockfd notify' = nt_sockfd notify"
    "watchdog_usec notify' = watchdog_usec notify"
  using assms by (auto simp: ls_notify_statusf_def notify_status_def Let_def split: if_splits prod.splits)

section \<open>What the parsers accept\<close>

lemma c_strtoull_all_digits:
  assumes "v \<noteq> []" "list_all is_digit v"
  shows "c_strtoull v = (if read_nat v > 18446744073709551615 then (UINT64_MAX, [], True) else (of_nat (read_nat v), [], False))"
proof -
  obtain c cs where v: "v = c # cs" using assms(1) by (cases v) auto
  have "takeWhile is_digit v = v" "dropWhile is_digit v = []"
    using assms(2) by (simp_all add: list_all_iff)
  moreover have "is_digit c" using assms(2) v by simp
  ultimately show ?thesis
    using c_strtoull_digit [of c cs] v by (simp only: Let_def) simp
qed

lemma parse_uint64_Some:
  "parse_uint64 v = Some n \<longleftrightarrow>
     v \<noteq> [] \<and> list_all is_digit v \<and> read_nat v \<le> 18446744073709551615 \<and> n = of_nat (read_nat v)"
proof (cases "v \<noteq> [] \<and> list_all is_digit v")
  case True
  then have "is_digit (hd v)" by (cases v) simp_all
  with True show ?thesis
    by (auto simp: parse_uint64_def c_strtoull_all_digits)
next
  case False
  have "parse_uint64 v = None"
  proof (cases v)
    case (Cons c cs)
    with False have "dropWhile is_digit v \<noteq> []" by (auto simp: list_all_iff)
    with Cons show ?thesis
      by (cases "is_digit c") (simp_all add: parse_uint64_def c_strtoull_digit Let_def)
  qed (simp add: parse_uint64_def)
  with False show ?thesis by auto
qed

lemma c_strtol_all_digits:
  assumes "v \<noteq> []" "list_all is_digit v" "int (read_nat v) \<le> LONG_MAX"
  shows "c_strtol v = (int (read_nat v), [], False)"
proof -
  obtain c cs where v: "v = c # cs" using assms(1) by (cases v) auto
  have t: "takeWhile is_digit v = v" "dropWhile is_digit v = []"
    using assms(2) by (simp_all add: list_all_iff)
  have d: "is_digit c" using assms(2) v by simp
  have "split_sign (dropWhile is_space v) = (False, v)"
    using is_digit_not_space [OF d] is_digit_not_sign [OF d] by (simp add: v)
  moreover have "\<not> int (read_nat v) < LONG_MIN" by (simp add: LONG_MIN_def)
  ultimately show ?thesis
    using assms(1,3) by (simp add: c_strtol_def Let_def t)
qed

lemma to_pid_t_mod:
  "to_pid_t v = (if v mod 4294967296 < 2147483648 then v mod 4294967296 else v mod 4294967296 - 4294967296)"
proof -
  define r where "r = v mod 4294967296"
  have r: "0 \<le> r" "r < 4294967296"
    by (simp_all add: r_def)
  have m: "(v + 2147483648) mod 4294967296 = (r + 2147483648) mod 4294967296"
    by (simp add: r_def mod_add_left_eq)
  show ?thesis
  proof (cases "r < 2147483648")
    case True
    with r have "(r + 2147483648) mod 4294967296 = r + 2147483648"
      by (intro mod_pos_pos_trivial) simp_all
    with True m show ?thesis by (simp add: to_pid_t_def r_def)
  next
    case False
    with r have "(r - 2147483648) mod 4294967296 = r - 2147483648"
      by (intro mod_pos_pos_trivial) simp_all
    moreover have "r + 2147483648 = (r - 2147483648) + 4294967296"
      by simp
    ultimately have "(r + 2147483648) mod 4294967296 = r - 2147483648"
      by (metis mod_add_self2)
    with False m show ?thesis by (simp add: to_pid_t_def r_def)
  qed
qed

text \<open>Which texts \<^verbatim>\<open>strtol\<close> converts completely to a positive number: blanks, at most a plus
  sign, digits.\<close>

lemma c_strtol_prefixed:
  assumes "list_all is_space b" "sg \<in> {[], ''+''}" "ds \<noteq> []" "list_all is_digit ds" "int (read_nat ds) \<le> LONG_MAX"
  shows "c_strtol (b @ sg @ ds) = (int (read_nat ds), [], False)"
proof -
  obtain c cs where ds: "ds = c # cs" "is_digit c" using assms(3,4) by (cases ds) auto
  have t: "takeWhile is_digit ds = ds" "dropWhile is_digit ds = []"
    using assms(4) by (simp_all add: list_all_iff)
  have "dropWhile is_space (b @ sg @ ds) = sg @ ds"
    using assms(1,2) is_digit_not_space [OF ds(2)] by (auto simp: dropWhile_append list_all_iff ds is_space_def)
  moreover have "split_sign (sg @ ds) = (False, ds)"
    using assms(2) is_digit_not_sign [OF ds(2)] by (auto simp: ds)
  moreover have "\<not> int (read_nat ds) < LONG_MIN" by (simp add: LONG_MIN_def)
  ultimately show ?thesis
    using assms(3,5) by (simp add: c_strtol_def Let_def t)
qed

lemma c_strtol_positive:
  assumes "c_strtol s = (n, [], False)" "s \<noteq> []" "0 < n"
  obtains b sg ds where "s = b @ sg @ ds" "list_all is_space b" "sg \<in> {[], ''+''}" "ds \<noteq> []" "list_all is_digit ds"
    "n = int (read_nat ds)" "n \<le> LONG_MAX"
proof -
  define body where "body = dropWhile is_space s"
  have s: "s = takeWhile is_space s @ body" "list_all is_space (takeWhile is_space s)"
    by (simp_all add: body_def list_all_iff) (meson set_takeWhileD)
  obtain neg ds where sp: "split_sign body = (neg, ds)" by (metis surj_pair)
  note P = assms(1) [unfolded c_strtol_def body_def [symmetric] sp Let_def prod.case]
  have "dropWhile is_digit ds = []" using P assms(2) by (auto split: if_splits)
  then have t: "takeWhile is_digit ds = ds" by (metis append_Nil2 takeWhile_dropWhile_id)
  have d: "ds \<noteq> []" "n = (if neg then - int (read_nat ds) else int (read_nat ds))" "n \<le> LONG_MAX"
    using P assms(2) unfolding t by (auto split: if_splits)
  have "\<not> neg" using d(2) assms(3) by (cases neg) simp_all
  then obtain sg where "body = sg @ ds" "sg \<in> {[], ''+''}"
    using sp by (cases body rule: split_sign.cases) (auto split: if_splits)
  with s d \<open>\<not> neg\<close> t show ?thesis
    by (intro that [of "takeWhile is_space s" sg ds]) (auto simp: list_all_iff takeWhile_eq_all_conv)
qed

lemma watchdog_pid_iff:
  "watchdog_pid_matches_self sys \<longleftrightarrow>
    (case os_getenv sys ''WATCHDOG_PID'' of None \<Rightarrow> True
     | Some p \<Rightarrow> p = [] \<or>
         (\<exists>b sg ds. p = b @ sg @ ds \<and> list_all is_space b \<and> sg \<in> {[], ''+''} \<and> ds \<noteq> [] \<and> list_all is_digit ds \<and>
            0 < read_nat ds \<and> read_nat ds < 2 ^ 63 \<and>
            (int (read_nat ds) + 2147483648) mod 4294967296 - 2147483648 = os_getpid sys))"
proof (cases "os_getenv sys ''WATCHDOG_PID''")
  case (Some p)
  show ?thesis
  proof (cases "p = []")
    case False
    obtain n rest err where c: "c_strtol p = (n, rest, err)" by (metis prod_cases3)
    have "watchdog_pid_matches_self sys \<longleftrightarrow> \<not> err \<and> rest = [] \<and> 0 < n \<and> to_pid_t n = os_getpid sys"
      using Some False c by (auto simp: watchdog_pid_matches_self_def)
    also have "\<dots> \<longleftrightarrow> (\<exists>b sg ds. p = b @ sg @ ds \<and> list_all is_space b \<and> sg \<in> {[], ''+''} \<and> ds \<noteq> [] \<and> list_all is_digit ds \<and>
            0 < read_nat ds \<and> read_nat ds < 2 ^ 63 \<and> to_pid_t (int (read_nat ds)) = os_getpid sys)" (is "?L \<longleftrightarrow> ?R")
    proof
      assume L: ?L
      then have "c_strtol p = (n, [], False)" using c by simp
      then show ?R
      proof (rule c_strtol_positive [OF _ False])
        fix b sg ds
        assume r: "p = b @ sg @ ds" "list_all is_space b" "sg \<in> {[], ''+''}" "ds \<noteq> []" "list_all is_digit ds"
          "n = int (read_nat ds)" "n \<le> LONG_MAX"
        have "0 < read_nat ds" "read_nat ds < 2 ^ 63" "to_pid_t (int (read_nat ds)) = os_getpid sys"
          using r(6,7) L by (simp_all add: LONG_MAX_def)
        with r(1-5) show ?R by blast
      qed (use L in simp)
    next
      assume ?R
      then obtain b sg ds where r: "p = b @ sg @ ds" "list_all is_space b" "sg \<in> {[], ''+''}" "ds \<noteq> []" "list_all is_digit ds"
        "0 < read_nat ds" "read_nat ds < 2 ^ 63" "to_pid_t (int (read_nat ds)) = os_getpid sys"
        by blast
      have "int (read_nat ds) \<le> LONG_MAX" using r(7) by (simp add: LONG_MAX_def)
      from c_strtol_prefixed [OF r(2-5) this] r c show ?L by simp
    qed
    finally show ?thesis using Some False by (simp add: to_pid_t_def)
  qed (use Some in \<open>simp add: watchdog_pid_matches_self_def\<close>)
qed (simp add: watchdog_pid_matches_self_def)

text \<open>The exact answer of the comparison with \<^verbatim>\<open>WATCHDOG_PID\<close> on a decimal number: equality modulo
  $2^{32}$.\<close>

lemma watchdog_pid_number:
  assumes "os_getenv sys ''WATCHDOG_PID'' = Some (show_nat p)" and "0 < p" and "int p \<le> LONG_MAX"
  shows "watchdog_pid_matches_self sys \<longleftrightarrow> to_pid_t (int p) = os_getpid sys"
  using assms c_strtol_all_digits [OF show_nat_nonempty show_nat_digits, of p]
  by (auto simp: watchdog_pid_matches_self_def dest: sym)

lemma watchdog_usec_value:
  assumes "ls_notify_init w = (Inr (), notify, w')"
  shows "watchdog_usec notify =
    (case os_getenv (world_os w) ''WATCHDOG_USEC'' of
       None \<Rightarrow> 0
     | Some v \<Rightarrow> if watchdog_pid_matches_self (world_os w) \<and> v \<noteq> [] \<and> list_all is_digit v \<and>
                   read_nat v < 2 ^ 64 then of_nat (read_nat v) else 0)"
proof -
  have "parse_uint64 v = (if v \<noteq> [] \<and> list_all is_digit v \<and> read_nat v \<le> 18446744073709551615
      then Some (of_nat (read_nat v)) else None)" for v
    using parse_uint64_Some [of v] by (cases "parse_uint64 v") auto
  then show ?thesis
    using assms unfolding ls_notify_init_def
    by (auto simp: Let_def ask_def ls_err_set_def zero_notify_def split: option.splits sum.splits if_splits)
qed

section \<open>Properties\<close>

text \<open>C33: Status updates, exactly. On an open channel a status text is cut to 239 characters and sent
  as one \<^verbatim>\<open>STATUS=\<close> datagram that the 256-byte message buffer never truncates further, unless
  the same text was delivered less than two seconds ago by a working clock; in that case nothing is
  sent and the call reports success. A delivered text is remembered with its time, a failed send
  changes nothing, so the next identical update is tried again.\<close>
theorem status_update_exact:
  assumes "nt_opened notify"
  shows "ls_notify_statusf notify text w =
    (let (now, w1) = ls_now_ms w; s = take 239 text;
         fresh = (last_status notify = s \<and> last_status_ms notify \<noteq> 0 \<and> now \<noteq> UINT64_MAX \<and>
                  now - last_status_ms notify < 2000);
         ok = (case settle (os_send (world_os w) (Suc (tick w))) of Inl _ \<Rightarrow> False | Inr _ \<Rightarrow> True)
     in if fresh then (True, notify, w1)
        else (ok, if ok then notify\<lparr>last_status := s, last_status_ms := (if now = UINT64_MAX then 0 else now)\<rparr> else notify,
              emit (Notify_send (''STATUS='' @ s) ok) (w1\<lparr>tick := Suc (tick w1)\<rparr>)))"
proof -
  obtain now w1 where n: "ls_now_ms w = (now, w1)" by (cases "ls_now_ms w")
  then have w1: "w1 = w\<lparr>tick := Suc (tick w)\<rparr>" by (rule ls_now_ms_D)
  have cut: "c_snprintf 240 text = take 239 text" "c_snprintf 240 (take 239 text) = take 239 text"
    "c_snprintf 256 (''STATUS='' @ take 239 (take 239 text)) = ''STATUS='' @ take 239 text"
    by (simp_all add: c_snprintf_def)
  show ?thesis
    using assms unfolding ls_notify_statusf_def notify_status_def notify_send_def ask_def
      LS_NOTIFY_STATUS_SIZE_def LS_NOTIFY_MESSAGE_SIZE_def LS_NOTIFY_DEDUP_WINDOW_MS_def n cut
    by (simp add: Let_def n cut w1)
qed

theorem status_update_exact_witness:
  "fst (ls_notify_statusf (zero_notify\<lparr>nt_opened := True, last_status := ''x'', last_status_ms := 3599000\<rparr>) ''x''
     (boot sample_os))"
  using status_update_exact [of "zero_notify\<lparr>nt_opened := True, last_status := ''x'', last_status_ms := 3599000\<rparr>"
      "''x''" "boot sample_os"]
  by (simp add: ls_now_ms_def ask_def timespec_ms_def ls_add_sat_def UINT64_MAX_def LS_MS_PER_SEC_def LS_NS_PER_MS_def)

text \<open>C34: The watchdog is fed in time. The interval is 0 exactly when no watchdog was requested;
  otherwise it is at least one millisecond, at most half of \<^verbatim>\<open>WATCHDOG_USEC\<close> (except for periods
  below two milliseconds, where it is one millisecond), and less than one millisecond short of that half.\<close>
theorem watchdog_interval_half:
  "let i = unat (ls_notify_watchdog_interval_ms notify); u = unat (watchdog_usec notify)
   in (0 < i \<longleftrightarrow> nt_opened notify \<and> 0 < u) \<and>
      (if nt_opened notify \<and> 2000 \<le> u then i * 2000 \<le> u \<and> u < (i + 1) * 2000 else i \<le> 1)"
proof -
  let ?u = "watchdog_usec notify"
  have d: "unat (?u div (LS_MS_PER_SEC * 2)) = unat ?u div 2000"
    by (simp add: unat_div LS_MS_PER_SEC_def)
  have z: "?u div (LS_MS_PER_SEC * 2) = 0 \<longleftrightarrow> unat ?u < 2000"
    using d by (metis div_eq_0_iff unat_eq_0 zero_neq_numeral)
  have "unat ?u div 2000 * 2000 \<le> unat ?u" "unat ?u < (unat ?u div 2000 + 1) * 2000"
    using dividend_less_times_div [of 2000 "unat ?u"] div_times_less_eq_dividend [of "unat ?u" 2000] by simp_all
  moreover have "unat ?u div 2000 \<noteq> 0" if "\<not> unat ?u < 2000"
    using that by simp
  ultimately show ?thesis
    by (simp add: ls_notify_watchdog_interval_ms_def Let_def d z unat_gt_0)
qed

text \<open>C35: The channel owns its descriptor. A failing \<^verbatim>\<open>ls_notify_init\<close> has closed every
  descriptor it opened and leaves a state whose destruction closes nothing; a successful one holds
  exactly the one it opened, connected to the address built from \<^verbatim>\<open>NOTIFY_SOCKET\<close>, and
  \<^verbatim>\<open>ls_notify_destroy\<close> closes it once, however often it is called.\<close>
theorem notify_descriptor_owned:
  assumes "ls_notify_init w = (r, notify, w')"
  shows "(case r of
      Inl _ \<Rightarrow> \<not> nt_opened notify \<and>
        (trace w' = trace w \<or> (\<exists>fd cs. trace w' = trace w @ [Open_fd fd] @ cs @ [Close_fd (int fd)] \<and> list_all is_Connect cs))
    | Inr _ \<Rightarrow> nt_opened notify \<and>
        (\<exists>fd path sun len. nt_sockfd notify = int fd \<and> os_getenv (world_os w) ''NOTIFY_SOCKET'' = Some path \<and>
           build_socket_addr path = Some (sun, len) \<and> trace w' = trace w @ [Open_fd fd, Connect sun len] \<and>
           trace (snd (ls_notify_destroy notify v)) = trace v @ [Close_fd (int fd)])) \<and>
    (let (n1, v1) = ls_notify_destroy notify v in ls_notify_destroy n1 v1 = (n1, v1))"
proof -
  have again: "let (n1, v1) = ls_notify_destroy notify v in ls_notify_destroy n1 v1 = (n1, v1)"
    by (simp add: ls_notify_destroy_def Let_def)
  have "case r of
      Inl _ \<Rightarrow> \<not> nt_opened notify \<and>
        (trace w' = trace w \<or> (\<exists>fd cs. trace w' = trace w @ [Open_fd fd] @ cs @ [Close_fd (int fd)] \<and> list_all is_Connect cs))
    | Inr _ \<Rightarrow> nt_opened notify \<and>
        (\<exists>fd path sun len. nt_sockfd notify = int fd \<and> os_getenv (world_os w) ''NOTIFY_SOCKET'' = Some path \<and>
           build_socket_addr path = Some (sun, len) \<and> trace w' = trace w @ [Open_fd fd, Connect sun len] \<and>
           trace (snd (ls_notify_destroy notify v)) = trace v @ [Close_fd (int fd)])"
    using assms unfolding ls_notify_init_def
    by (auto simp: Let_def ask_def ls_err_set_def zero_notify_def ls_notify_destroy_def
        intro: exI [of _ "[]"] exI [of _ "[Connect a b]" for a b]
        split: option.splits sum.splits if_splits)
  with again show ?thesis by blast
qed

theorem notify_descriptor_owned_witness:
  "\<not> nt_opened (fst (snd (ls_notify_init (boot sample_os))))"
proof -
  obtain notify where i: "ls_notify_init (boot sample_os) =
      (ls_err_set ''NOTIFY_SOCKET is not set; linkstay must run under systemd'', notify, boot sample_os)"
    by (simp add: ls_notify_init_def Let_def)
  from notify_descriptor_owned [OF i] show ?thesis
    by (simp add: i ls_err_set_def)
qed

text \<open>C36: The watchdog environment contract. With a channel and \<^verbatim>\<open>WATCHDOG_USEC\<close> set, the period is
  taken over exactly when the text is a plain decimal number of at most 64 bits (no sign, blank or
  suffix) and \<^verbatim>\<open>WATCHDOG_PID\<close> is absent, empty, or a positive decimal number of at most 63 bits
  (blanks and a plus sign before it are accepted) that is this process's id once it is narrowed to the 32 bits of
  \<^verbatim>\<open>pid_t\<close>; every other combination leaves the watchdog off instead of failing the
  service.\<close>
theorem watchdog_contract:
  assumes "ls_notify_init w = (Inr (), notify, w')"
  shows "watchdog_usec notify =
    (case os_getenv (world_os w) ''WATCHDOG_USEC'' of
       None \<Rightarrow> 0
     | Some v \<Rightarrow>
         if (case os_getenv (world_os w) ''WATCHDOG_PID'' of None \<Rightarrow> True
             | Some p \<Rightarrow> p = [] \<or>
                 (\<exists>b sg ds. p = b @ sg @ ds \<and> list_all is_space b \<and> sg \<in> {[], ''+''} \<and> ds \<noteq> [] \<and> list_all is_digit ds \<and>
                    0 < read_nat ds \<and> read_nat ds < 2 ^ 63 \<and>
                    (int (read_nat ds) + 2147483648) mod 4294967296 - 2147483648 = os_getpid (world_os w))) \<and>
            v \<noteq> [] \<and> list_all is_digit v \<and> read_nat v < 2 ^ 64
         then of_nat (read_nat v) else 0)"
  using watchdog_usec_value [OF assms] unfolding watchdog_pid_iff .

theorem watchdog_contract_witness:
  "watchdog_usec (fst (snd (ls_notify_init (boot (sample_os\<lparr>os_getenv :=
     [''NOTIFY_SOCKET'' \<mapsto> ''@n'', ''WATCHDOG_USEC'' \<mapsto> ''30000000'']\<rparr>))))) = 30000000"
proof -
  let ?sys = "sample_os\<lparr>os_getenv := [''NOTIFY_SOCKET'' \<mapsto> ''@n'', ''WATCHDOG_USEC'' \<mapsto> ''30000000'']\<rparr>"
  obtain r notify w' where i: "ls_notify_init (boot ?sys) = (r, notify, w')" by (metis prod_cases3)
  moreover have "r = Inr ()"
    using i by (auto simp: ls_notify_init_def Let_def ask_def build_socket_addr_def sizeof_sun_path_def)
  ultimately have "ls_notify_init (boot ?sys) = (Inr (), notify, w')" by simp
  from watchdog_contract [OF this] show ?thesis
    by (simp add: i is_digit_def read_nat_def digit_value_def)
qed

text \<open>C37: What \<^verbatim>\<open>WATCHDOG_PID\<close> is compared with. A positive decimal number matches when it is
  congruent to the process id modulo $2^{32}$: the parsed \<^verbatim>\<open>long\<close> is narrowed to
  \<^verbatim>\<open>pid_t\<close> before the comparison, so besides the process id itself every number that differs
  from it by a multiple of $2^{32}$ is accepted too.\<close>
theorem watchdog_pid_modulo:
  assumes "os_getenv sys ''WATCHDOG_PID'' = Some (show_nat p)" and "0 < p" and "int p \<le> LONG_MAX"
    and "0 < os_getpid sys" and "os_getpid sys < 2147483648"
  shows "watchdog_pid_matches_self sys \<longleftrightarrow> int p mod 4294967296 = os_getpid sys"
  unfolding watchdog_pid_number [OF assms(1-3)] using assms(4,5) by (auto simp: to_pid_t_mod)

theorem watchdog_pid_modulo_witness:
  "watchdog_pid_matches_self (sample_os\<lparr>os_getenv := (\<lambda>_. Some (show_nat 4294971538))\<rparr>)"
proof -
  have "watchdog_pid_matches_self (sample_os\<lparr>os_getenv := (\<lambda>_. Some (show_nat p))\<rparr>)"
    if "int p = 4294971538" for p
    using that watchdog_pid_modulo [of "sample_os\<lparr>os_getenv := (\<lambda>_. Some (show_nat p))\<rparr>" p]
    by (simp add: LONG_MAX_def del: show_nat.simps)
  then show ?thesis by simp
qed

end
