(* ===== verification/LS_Loop.thy ===== *)
theory LS_Loop
  imports LS_Log "HOL-Library.While_Combinator"
begin

unbundle bit_operations_syntax

text \<open>
  \<^verbatim>\<open>src/loop.h\<close> and \<^verbatim>\<open>src/loop.c\<close>: the poll event loop. A function pointer is a name of
  the client's callback type; the loop reaches the client's callbacks, and the loop object inside
  the client's state, through a \<open>client\<close> record. The slot arrays are lists that hold the registered
  prefix, so \<^verbatim>\<open>fd_count\<close> and \<^verbatim>\<open>timer_count\<close> are their lengths. The loop may run forever;
  \<open>ls_loop_run\<close> is an option, and \<open>loop_head\<close> is the relation of the states in which the loop
  condition is evaluated.
\<close>

section \<open>State\<close>

definition LS_LOOP_MAX_FDS :: nat where "LS_LOOP_MAX_FDS = 4"
definition LS_LOOP_MAX_TIMERS :: nat where "LS_LOOP_MAX_TIMERS = 4"

definition POLLIN :: u16 where "POLLIN = 1"
definition POLLERR :: u16 where "POLLERR = 8"
definition POLLHUP :: u16 where "POLLHUP = 16"
definition POLLNVAL :: u16 where "POLLNVAL = 32"

record 't ls_timer_t =
  deadline_ms :: u64
  timer_cb :: 't

text \<open>The callback of a descriptor slot: \<^verbatim>\<open>dispatch_signal_fd\<close> of the loop itself, or one of
  the client's.\<close>

datatype 'f ls_fd_cb_t = Dispatch_signal_fd | Fd_cb 'f

record 'f pollfd =
  poll_fd :: int
  poll_revents :: u16
  fd_cb :: "'f ls_fd_cb_t"
  fd_critical :: bool

record ('t, 'f, 's) ls_loop_t =
  lp_log :: ls_log_t
  now_ms :: u64
  stopping :: bool
  lp_exit_code :: int
  fds :: "'f pollfd list"
  timers :: "'t ls_timer_t list"
  signal_fd :: int
  previous_mask :: "nat set"
  previous_mask_valid :: bool
  signal_cb :: "'s option"

record ('a, 't, 'f, 's) client =
  cl_loop :: "'a \<Rightarrow> ('t, 'f, 's) ls_loop_t"
  cl_set_loop :: "('t, 'f, 's) ls_loop_t \<Rightarrow> 'a \<Rightarrow> 'a"
  cl_timer_cb :: "'t \<Rightarrow> 'a \<Rightarrow> world \<Rightarrow> 'a \<times> world"
  cl_fd_cb :: "'f \<Rightarrow> int \<Rightarrow> 'a \<Rightarrow> world \<Rightarrow> 'a \<times> world"
  cl_signal_cb :: "'s \<Rightarrow> nat \<Rightarrow> 'a \<Rightarrow> world \<Rightarrow> 'a \<times> world"

section \<open>Timers\<close>

definition ls_timer_disarm :: "'t ls_timer_t \<Rightarrow> 't ls_timer_t" where
  "ls_timer_disarm t = t\<lparr>deadline_ms := UINT64_MAX\<rparr>"

definition ls_timer_armed :: "'t ls_timer_t \<Rightarrow> bool" where
  "ls_timer_armed t \<longleftrightarrow> deadline_ms t \<noteq> UINT64_MAX"

definition ls_timer_arm_after :: "u64 \<Rightarrow> u64 \<Rightarrow> 't ls_timer_t \<Rightarrow> 't ls_timer_t" where
  "ls_timer_arm_after base_ms delta_ms t = t\<lparr>deadline_ms := ls_add_sat base_ms delta_ms\<rparr>"

definition ls_timer_step :: "u64 \<Rightarrow> u64 \<Rightarrow> 't ls_timer_t \<Rightarrow> 't ls_timer_t" where
  "ls_timer_step interval_ms now t =
     (if interval_ms = 0 then ls_timer_disarm t
      else let base = (if ls_timer_armed t then deadline_ms t else now);
               nxt = ls_add_sat base interval_ms;
               nxt = (if nxt < now then ls_add_sat now interval_ms else nxt)
           in t\<lparr>deadline_ms := nxt\<rparr>)"

section \<open>Setup and teardown\<close>

definition ls_loop_init :: "ls_log_t \<Rightarrow> ('t, 'f, 's) ls_loop_t" where
  "ls_loop_init lg =
     \<lparr>lp_log = lg, now_ms = 0, stopping = False, lp_exit_code = LS_EXIT_SUCCESS, fds = [], timers = [],
      signal_fd = -1, previous_mask = {}, previous_mask_valid = False, signal_cb = None\<rparr>"

definition ls_loop_destroy :: "('t, 'f, 's) ls_loop_t \<Rightarrow> world \<Rightarrow> ('t, 'f, 's) ls_loop_t \<times> world" where
  "ls_loop_destroy l w =
     (let (l, w) = (if signal_fd l \<ge> 0
            then (l\<lparr>signal_fd := -1\<rparr>, emit (Close_fd (signal_fd l)) w) else (l, w));
          w = (if previous_mask_valid l
               then let (r, w) = ask os_sigprocmask w; w = emit (Restore_signals (previous_mask l) r) w
                    in case r of None \<Rightarrow> w
                       | Some e \<Rightarrow> ls_error (lp_log l) (''sigprocmask restore failed: '' @ os_strerror (world_os w) e) w
               else w)
      in (l\<lparr>previous_mask_valid := False\<rparr>, w))"

section \<open>Registration\<close>

definition ls_loop_add_fd ::
  "int \<Rightarrow> 'f ls_fd_cb_t \<Rightarrow> bool \<Rightarrow> ('t, 'f, 's) ls_loop_t \<Rightarrow> ls_err_t + ('t, 'f, 's) ls_loop_t" where
  "ls_loop_add_fd fd cb critical l =
     (if fd < 0 then ls_err_set ''Invalid fd registration arguments''
      else if length (fds l) \<ge> LS_LOOP_MAX_FDS
      then ls_err_set (''Maximum fd slots ('' @ show_nat LS_LOOP_MAX_FDS @ '') reached'')
      else Inr (l\<lparr>fds := fds l @ [\<lparr>poll_fd = fd, poll_revents = 0, fd_cb = cb, fd_critical = critical\<rparr>]\<rparr>))"

definition ls_loop_watch_signals ::
  "nat list \<Rightarrow> 's \<Rightarrow> ('t, 'f, 's) ls_loop_t \<Rightarrow> world \<Rightarrow> (ls_err_t + unit) \<times> ('t, 'f, 's) ls_loop_t \<times> world" where
  "ls_loop_watch_signals signals cb l w =
     (if signal_fd l \<ge> 0 then (ls_err_set ''Invalid signal watch request'', l, w)
      else let (r, w) = ask os_sigprocmask w
           in case r of
                Some e \<Rightarrow> (ls_err_set (''sigprocmask failed: '' @ os_strerror (world_os w) e), l, w)
              | None \<Rightarrow>
                  (let l = l\<lparr>previous_mask := signal_mask w, previous_mask_valid := True\<rparr>;
                       w = emit (Block_signals signals) w;
                       (f, w) = ask os_signalfd w
                   in case f of
                        Inl e \<Rightarrow>
                          (let (r, w) = ask os_sigprocmask w; w = emit (Restore_signals (previous_mask l) r) w
                           in (ls_err_set (''signalfd failed: '' @ os_strerror (world_os w) e),
                               l\<lparr>signal_fd := -1, previous_mask_valid := False\<rparr>, w))
                      | Inr fd \<Rightarrow>
                          (let w = emit (Open_fd fd) w;
                               l = l\<lparr>signal_fd := int fd, signal_cb := Some cb\<rparr>
                           in case ls_loop_add_fd (int fd) Dispatch_signal_fd True l of
                                Inl err \<Rightarrow>
                                  (let w = emit (Close_fd (int fd)) w;
                                       l = l\<lparr>signal_fd := -1, signal_cb := None\<rparr>;
                                       (r, w) = ask os_sigprocmask w;
                                       w = emit (Restore_signals (previous_mask l) r) w
                                   in (Inl err, l\<lparr>previous_mask_valid := False\<rparr>, w))
                              | Inr l \<Rightarrow> (Inr (), l, w))))"

definition ls_loop_add_timer ::
  "'t \<Rightarrow> ('t, 'f, 's) ls_loop_t \<Rightarrow> ls_err_t + (nat \<times> ('t, 'f, 's) ls_loop_t)" where
  "ls_loop_add_timer cb l =
     (if length (timers l) \<ge> LS_LOOP_MAX_TIMERS
      then ls_err_set (''Maximum timer slots ('' @ show_nat LS_LOOP_MAX_TIMERS @ '') reached'')
      else Inr (length (timers l),
             l\<lparr>timers := timers l @ [ls_timer_disarm \<lparr>deadline_ms = 0, timer_cb = cb\<rparr>]\<rparr>))"

section \<open>Running\<close>

definition ls_loop_stop :: "int \<Rightarrow> ('t, 'f, 's) ls_loop_t \<Rightarrow> ('t, 'f, 's) ls_loop_t" where
  "ls_loop_stop code l = l\<lparr>stopping := True, lp_exit_code := code\<rparr>"

definition refresh_now ::
  "('t, 'f, 's) ls_loop_t \<Rightarrow> world \<Rightarrow> bool \<times> ('t, 'f, 's) ls_loop_t \<times> world" where
  "refresh_now l w =
     (let (now, w) = ls_now_ms w
      in if now = UINT64_MAX
         then (False, ls_loop_stop LS_EXIT_FAILURE l, ls_error (lp_log l) ''Failed to refresh monotonic clock'' w)
         else (True, l\<lparr>now_ms := now\<rparr>, w))"

definition timer_due :: "('t, 'f, 's) ls_loop_t \<Rightarrow> nat \<Rightarrow> bool" where
  "timer_due l i \<longleftrightarrow> ls_timer_armed (timers l ! i) \<and> now_ms l \<ge> deadline_ms (timers l ! i)"

text \<open>The body of the for loop over the timer slots, from a list of the remaining indices.\<close>

fun fire_slots :: "('a, 't, 'f, 's) client \<Rightarrow> nat list \<Rightarrow> 'a \<times> world \<Rightarrow> 'a \<times> world" where
  "fire_slots c [] s = s"
| "fire_slots c (i # is) (a, w) =
     (let l = cl_loop c a
      in if i < length (timers l) \<and> \<not> stopping l
         then fire_slots c is (if timer_due l i then cl_timer_cb c (timer_cb (timers l ! i)) a w else (a, w))
         else (a, w))"

definition fire_timers :: "('a, 't, 'f, 's) client \<Rightarrow> 'a \<times> world \<Rightarrow> 'a \<times> world" where
  "fire_timers c s = fire_slots c [0..<LS_LOOP_MAX_TIMERS] s"

definition nearest_deadline :: "'t ls_timer_t list \<Rightarrow> u64" where
  "nearest_deadline ts = foldl (\<lambda>nearest t. if deadline_ms t < nearest then deadline_ms t else nearest) UINT64_MAX ts"

definition poll_timeout_ms :: "('t, 'f, 's) ls_loop_t \<Rightarrow> int" where
  "poll_timeout_ms l =
     (let nearest = nearest_deadline (timers l)
      in if nearest = UINT64_MAX then -1
         else if nearest \<le> now_ms l then 0
         else let remaining = nearest - now_ms l
              in if remaining > word_of_int INT_MAX then INT_MAX else sint (ucast remaining :: u32))"

definition dispatch_signal_fd :: "('a, 't, 'f, 's) client \<Rightarrow> 'a \<Rightarrow> world \<Rightarrow> 'a \<times> world" where
  "dispatch_signal_fd c a w =
     (let (r, w) = ask os_sigread w
      in case r of None \<Rightarrow> (a, w)
         | Some signo \<Rightarrow>
             (case signal_cb (cl_loop c a) of None \<Rightarrow> (a, w) | Some cb \<Rightarrow> cl_signal_cb c cb signo a w))"

fun show_hex :: "nat \<Rightarrow> string" where
  "show_hex n = (if n < 16 then [''0123456789abcdef'' ! n] else show_hex (n div 16) @ [''0123456789abcdef'' ! (n mod 16)])"

declare show_hex.simps [simp del]

fun dispatch_slots :: "('a, 't, 'f, 's) client \<Rightarrow> nat list \<Rightarrow> 'a \<times> world \<Rightarrow> 'a \<times> world" where
  "dispatch_slots c [] s = s"
| "dispatch_slots c (i # is) (a, w) =
     (let l = cl_loop c a
      in if i < length (fds l) \<and> \<not> stopping l
         then let slot = fds l ! i; revents = poll_revents slot
              in if revents AND (POLLERR OR POLLHUP OR POLLNVAL) \<noteq> 0
                 then if fd_critical slot
                      then (cl_set_loop c (ls_loop_stop LS_EXIT_FAILURE l) a,
                            ls_error (lp_log l) (''Critical fd '' @ show_int (poll_fd slot) @
                              '' entered error state, stopping'') w)
                      else dispatch_slots c is
                             (a, ls_warn (lp_log l) (''Non-critical fd '' @ show_int (poll_fd slot) @
                                '' entered error state (revents=0x'' @ show_hex (unat revents) @ ''), continuing'') w)
                 else dispatch_slots c is
                        (if revents AND POLLIN \<noteq> 0
                         then case fd_cb slot of
                                Dispatch_signal_fd \<Rightarrow> dispatch_signal_fd c a w
                              | Fd_cb f \<Rightarrow> cl_fd_cb c f (poll_fd slot) a w
                         else (a, w))
         else (a, w))"

definition dispatch_fds :: "('a, 't, 'f, 's) client \<Rightarrow> 'a \<times> world \<Rightarrow> 'a \<times> world" where
  "dispatch_fds c s = dispatch_slots c [0..<LS_LOOP_MAX_FDS] s"

text \<open>\<^verbatim>\<open>poll\<close> rewrites the \<^verbatim>\<open>revents\<close> of every slot and returns how many are nonzero.\<close>

definition set_revents :: "u16 list \<Rightarrow> 'f pollfd list \<Rightarrow> 'f pollfd list" where
  "set_revents rs ps =
     map (\<lambda>(i, p). p\<lparr>poll_revents := (if i < length rs then rs ! i else 0)\<rparr>) (enumerate 0 ps)"

definition ready_count :: "'f pollfd list \<Rightarrow> nat" where
  "ready_count ps = length (filter (\<lambda>p. poll_revents p \<noteq> 0) ps)"

text \<open>One pass of the while loop. The first component says whether the pass ended with a
  \<^verbatim>\<open>break\<close>.\<close>

definition loop_body :: "('a, 't, 'f, 's) client \<Rightarrow> 'a \<Rightarrow> world \<Rightarrow> bool \<times> 'a \<times> world" where
  "loop_body c a w =
     (let (ok, l, w) = refresh_now (cl_loop c a) w; a = cl_set_loop c l a
      in if \<not> ok then (True, a, w)
         else let (a, w) = fire_timers c (a, w)
              in if stopping (cl_loop c a) then (True, a, w)
                 else let l = cl_loop c a; (r, w) = ask (\<lambda>sys n. os_poll sys n (poll_timeout_ms l)) w
                      in case r of
                           Inl e \<Rightarrow>
                             (if e \<noteq> EINTR
                              then (True, cl_set_loop c (ls_loop_stop LS_EXIT_FAILURE l) a,
                                    ls_error (lp_log l) (''poll error: '' @ os_strerror (world_os w) e) w)
                              else (False, a, w))
                         | Inr rs \<Rightarrow>
                             (let l = l\<lparr>fds := set_revents rs (fds l)\<rparr>; a = cl_set_loop c l a
                              in if ready_count (fds l) > 0
                                 then let (ok, l, w) = refresh_now l w; a = cl_set_loop c l a
                                      in if \<not> ok then (True, a, w)
                                         else let (a, w) = dispatch_fds c (a, w) in (False, a, w)
                                 else (False, a, w)))"

definition loop_continues :: "('a, 't, 'f, 's) client \<Rightarrow> bool \<times> 'a \<times> world \<Rightarrow> bool" where
  "loop_continues c = (\<lambda>(brk, a, w). \<not> brk \<and> \<not> stopping (cl_loop c a))"

definition ls_loop_run :: "('a, 't, 'f, 's) client \<Rightarrow> 'a \<Rightarrow> world \<Rightarrow> (int \<times> 'a \<times> world) option" where
  "ls_loop_run c a w =
     map_option (\<lambda>(_, a, w). (lp_exit_code (cl_loop c a), a, w))
       (while_option (loop_continues c) (\<lambda>(_, a, w). loop_body c a w) (False, a, w))"

definition ls_loop_stopping :: "('t, 'f, 's) ls_loop_t \<Rightarrow> bool" where
  "ls_loop_stopping l = stopping l"

definition ls_loop_now :: "('t, 'f, 's) ls_loop_t \<Rightarrow> u64" where
  "ls_loop_now l = now_ms l"

section \<open>Loop clients\<close>

text \<open>The states in which the loop tests its condition, for runs that end and for those that do not.\<close>

inductive loop_head :: "('a, 't, 'f, 's) client \<Rightarrow> 'a \<Rightarrow> world \<Rightarrow> 'a \<Rightarrow> world \<Rightarrow> bool"
  for c a0 w0 where
  start: "loop_head c a0 w0 a0 w0"
| pass: "loop_head c a0 w0 a w \<Longrightarrow> \<not> stopping (cl_loop c a) \<Longrightarrow> loop_body c a w = (brk, a', w') \<Longrightarrow>
    loop_head c a0 w0 a' w'"

lemma refresh_now_evolves:
  "refresh_now l w = (ok, l', w') \<Longrightarrow> evolves is_Stderr w w'"
  by (auto simp: refresh_now_def Let_def dest!: ls_now_ms_D split: if_splits prod.splits)

lemma refresh_now_loop:
  "refresh_now l w = (ok, l', w') \<Longrightarrow> l' = (if ok then l\<lparr>now_ms := now_ms l'\<rparr> else ls_loop_stop LS_EXIT_FAILURE l)"
  by (auto simp: refresh_now_def Let_def split: if_splits prod.splits)

text \<open>What the loop asks of its clients, as four contracts. The first is that the loop object is a lens
  of the client's state; it is enough to unroll the loop pass by pass.\<close>

locale loop_lens =
  fixes c :: "('a, 't, 'f, 's) client"
  assumes get_put: "cl_loop c (cl_set_loop c l a) = l"
begin

lemma break_stops:
  assumes "loop_body c a w = (True, a', w')"
  shows "stopping (cl_loop c a')"
  using assms
  by (auto simp: loop_body_def Let_def ask_def refresh_now_def ls_loop_stop_def get_put case_prod_unfold
      split: if_splits sum.splits)

lemma run_stopping: "stopping (cl_loop c a) \<Longrightarrow> ls_loop_run c a w = Some (lp_exit_code (cl_loop c a), a, w)"
  by (simp add: ls_loop_run_def while_option_unfold loop_continues_def)

lemma run_step:
  assumes "\<not> stopping (cl_loop c a)" "loop_body c a w = (brk, a', w')"
  shows "ls_loop_run c a w = ls_loop_run c a' w'"
proof (cases brk)
  case True
  with assms(2) have "stopping (cl_loop c a')" by (simp add: break_stops)
  with assms True run_stopping show ?thesis
    by (simp add: ls_loop_run_def while_option_unfold [of _ _ "(False, a, w)"]
        while_option_unfold [of _ _ "(True, a', w')"] while_option_unfold [of _ _ "(False, a', w')"] loop_continues_def)
next
  case False
  with assms show ?thesis
    by (simp add: ls_loop_run_def while_option_unfold [of _ _ "(False, a, w)"] loop_continues_def)
qed

lemma run_head: "loop_head c a0 w0 a w \<Longrightarrow> ls_loop_run c a0 w0 = ls_loop_run c a w"
  by (induction rule: loop_head.induct) (auto simp: run_step)

lemma run_result:
  assumes "ls_loop_run c a0 w0 = Some (code, a, w)"
  shows "loop_head c a0 w0 a w" "stopping (cl_loop c a)" "code = lp_exit_code (cl_loop c a)"
proof -
  obtain brk where w: "while_option (loop_continues c) (\<lambda>(_, a, w). loop_body c a w) (False, a0, w0) = Some (brk, a, w)"
    and code: "code = lp_exit_code (cl_loop c a)"
    using assms by (auto simp: ls_loop_run_def)
  let ?P = "\<lambda>(brk, a, w). loop_head c a0 w0 a w \<and> (brk \<longrightarrow> stopping (cl_loop c a))"
  have step: "?P (case s of (_, a, w) \<Rightarrow> loop_body c a w)" if P: "?P s" and cont: "loop_continues c s" for s
  proof -
    obtain b a1 w1 where s: "s = (b, a1, w1)" by (metis prod_cases3)
    obtain b2 a2 w2 where l: "loop_body c a1 w1 = (b2, a2, w2)" by (metis prod_cases3)
    have "loop_head c a0 w0 a2 w2"
      using P cont l by (auto simp: s loop_continues_def intro: loop_head.pass)
    with l break_stops show ?thesis by (auto simp: s)
  qed
  have "?P (brk, a, w)"
    by (rule while_option_rule [of ?P, OF step w]) (auto intro: loop_head.start)
  moreover have "\<not> loop_continues c (brk, a, w)"
    using while_option_stop [OF w] .
  ultimately show "loop_head c a0 w0 a w" "stopping (cl_loop c a)" "code = lp_exit_code (cl_loop c a)"
    using code by (auto simp: loop_continues_def)
qed

text \<open>A variant that every pass but the last lowers makes the loop return.\<close>

lemma run_terminates:
  fixes f :: "'a \<Rightarrow> world \<Rightarrow> nat"
  assumes step: "\<And>a w brk a' w'. Q a w \<Longrightarrow> \<not> stopping (cl_loop c a) \<Longrightarrow> loop_body c a w = (brk, a', w') \<Longrightarrow>
      Q a' w' \<and> (stopping (cl_loop c a') \<or> f a' w' < f a w)"
    and "Q a w"
  shows "\<exists>a' w'. ls_loop_run c a w = Some (lp_exit_code (cl_loop c a'), a', w') \<and> Q a' w' \<and> stopping (cl_loop c a')"
  using assms(2)
proof (induction "f a w" arbitrary: a w rule: less_induct)
  case less
  show ?case
  proof (cases "stopping (cl_loop c a)")
    case True
    with less.prems run_stopping show ?thesis by blast
  next
    case False
    obtain brk a' w' where b: "loop_body c a w = (brk, a', w')" by (metis prod_cases3)
    from step [OF less.prems False b] less.hyps run_stopping show ?thesis
      unfolding run_step [OF False b] by blast
  qed
qed

end

text \<open>An invariant that each timer callback keeps, and a potential that each of them raises unless it
  stops the loop: a pass over the timers then either stops, or raises the potential, or finds no timer
  due.\<close>

locale timer_client = loop_lens c
  for c :: "('a, 't, 'f, 's) client" +
  fixes Inv :: "'a \<Rightarrow> world \<Rightarrow> bool"
  assumes inv_timer: "Inv a w \<Longrightarrow> \<not> stopping (cl_loop c a) \<Longrightarrow> i < length (timers (cl_loop c a)) \<Longrightarrow>
      timer_due (cl_loop c a) i \<Longrightarrow> cl_timer_cb c (timer_cb (timers (cl_loop c a) ! i)) a w = (a', w') \<Longrightarrow> Inv a' w'"
begin

lemma inv_fire: "Inv a w \<Longrightarrow> fire_slots c is (a, w) = (a', w') \<Longrightarrow> Inv a' w'"
proof (induction "is" arbitrary: a w)
  case (Cons i "is")
  let ?l = "cl_loop c a"
  show ?case
  proof (cases "i < length (timers ?l) \<and> \<not> stopping ?l")
    case True
    obtain b v where s: "(if timer_due ?l i then cl_timer_cb c (timer_cb (timers ?l ! i)) a w else (a, w)) = (b, v)"
      by (metis surj_pair)
    with True Cons.prems(1) have "Inv b v"
      by (auto split: if_splits intro: inv_timer)
    with Cons True s show ?thesis
      by (simp add: Let_def)
  qed (use Cons.prems in \<open>auto simp: Let_def\<close>)
qed simp

end

locale progress_client = timer_client c Inv
  for c :: "('a, 't, 'f, 's) client" and Inv :: "'a \<Rightarrow> world \<Rightarrow> bool" +
  fixes pot :: "'a \<Rightarrow> nat"
  assumes pot_timer: "Inv a w \<Longrightarrow> \<not> stopping (cl_loop c a) \<Longrightarrow> i < length (timers (cl_loop c a)) \<Longrightarrow>
      timer_due (cl_loop c a) i \<Longrightarrow> cl_timer_cb c (timer_cb (timers (cl_loop c a) ! i)) a w = (a', w') \<Longrightarrow>
      stopping (cl_loop c a') \<or> pot a < pot a'"
begin

lemma fire_stopped: "stopping (cl_loop c a) \<Longrightarrow> fire_slots c is (a, w) = (a, w)"
  by (cases "is") (simp_all add: Let_def)

lemma fire_progress:
  "Inv a w \<Longrightarrow> fire_slots c is (a, w) = (a', w') \<Longrightarrow> sorted is \<Longrightarrow>
     stopping (cl_loop c a') \<or> pot a < pot a' \<or> (a' = a \<and> w' = w \<and>
       (\<forall>i \<in> set is. i < length (timers (cl_loop c a)) \<longrightarrow> \<not> timer_due (cl_loop c a) i))"
proof (induction "is" arbitrary: a w)
  case (Cons i "is")
  let ?l = "cl_loop c a"
  consider (off) "stopping ?l" | (short) "\<not> stopping ?l" "\<not> i < length (timers ?l)"
    | (idle) "\<not> stopping ?l" "i < length (timers ?l)" "\<not> timer_due ?l i"
    | (due) b v where "\<not> stopping ?l" "i < length (timers ?l)" "timer_due ?l i" "cl_timer_cb c (timer_cb (timers ?l ! i)) a w = (b, v)"
    by (metis surj_pair)
  then show ?case
  proof cases
    case due
    have "fire_slots c is (b, v) = (a', w')" using Cons.prems(2) due by (simp add: Let_def)
    with pot_timer [OF Cons.prems(1) due] Cons.IH [OF inv_timer [OF Cons.prems(1) due]] Cons.prems(3) fire_stopped [of b "is" v]
    show ?thesis by (metis fst_conv less_trans sorted_simps(2))
  qed (use Cons in \<open>auto simp: Let_def\<close>)
qed simp

end

text \<open>Slots that come to rest: a callback that runs for such a slot leaves it not due, and no callback makes
  another such slot due. After a pass over the timers none of them is due.\<close>

locale settling_client = timer_client c Inv
  for c :: "('a, 't, 'f, 's) client" and Inv :: "'a \<Rightarrow> world \<Rightarrow> bool" +
  fixes slots :: "nat set"
  assumes slot_present: "Inv a w \<Longrightarrow> j \<in> slots \<Longrightarrow> j < length (timers (cl_loop c a))"
    and settle_timer: "Inv a w \<Longrightarrow> \<not> stopping (cl_loop c a) \<Longrightarrow> i < length (timers (cl_loop c a)) \<Longrightarrow>
      timer_due (cl_loop c a) i \<Longrightarrow> cl_timer_cb c (timer_cb (timers (cl_loop c a) ! i)) a w = (a', w') \<Longrightarrow>
      j \<in> slots \<Longrightarrow> j = i \<or> \<not> timer_due (cl_loop c a) j \<Longrightarrow> stopping (cl_loop c a') \<or> \<not> timer_due (cl_loop c a') j"
begin

lemma fire_settles:
  "Inv a w \<Longrightarrow> fire_slots c is (a, w) = (a', w') \<Longrightarrow> sorted is \<Longrightarrow> j \<in> slots \<Longrightarrow> j \<in> set is \<or> \<not> timer_due (cl_loop c a) j \<Longrightarrow>
     stopping (cl_loop c a') \<or> \<not> timer_due (cl_loop c a') j"
proof (induction "is" arbitrary: a w)
  case (Cons i "is")
  let ?l = "cl_loop c a"
  have j: "j < length (timers ?l)" by (rule slot_present [OF Cons.prems(1,4)])
  show ?case
  proof (cases "i < length (timers ?l) \<and> \<not> stopping ?l")
    case True
    obtain b v where s: "(if timer_due ?l i then cl_timer_cb c (timer_cb (timers ?l ! i)) a w else (a, w)) = (b, v)"
      by (metis surj_pair)
    have b: "Inv b v" using s True Cons.prems(1) by (auto split: if_splits intro: inv_timer)
    have f: "fire_slots c is (b, v) = (a', w')" using Cons.prems(2) True s by (simp add: Let_def)
    have "stopping (cl_loop c b) \<or> j \<in> set is \<or> \<not> timer_due (cl_loop c b) j"
      using s True Cons.prems(1,4,5) settle_timer [of a w i b v j] by (auto split: if_splits)
    moreover have "stopping (cl_loop c a')" if "stopping (cl_loop c b)"
      using f that by (cases "is") (simp_all add: Let_def)
    ultimately show ?thesis using Cons.IH [OF b f] Cons.prems(3,4) by auto
  next
    case False
    then have "a' = a" using Cons.prems(2) by (auto simp: Let_def split: if_splits)
    with False j Cons.prems(3,5) show ?thesis by auto
  qed
qed simp

end

text \<open>An invariant of the whole loop: no step of the loop itself can break it, and it is kept by each
  callback the loop may call. The invariant may speak about the trace, so this is also how safety
  properties of whole runs are proved.\<close>

locale loop_client = timer_client c Inv
  for c :: "('a, 't, 'f, 's) client" and Inv :: "'a \<Rightarrow> world \<Rightarrow> bool" +
  assumes inv_now: "Inv a w \<Longrightarrow> \<not> stopping (cl_loop c a) \<Longrightarrow> refresh_now (cl_loop c a) w = (True, l, w') \<Longrightarrow>
      Inv (cl_set_loop c l a) w'"
    and inv_stop: "Inv a w \<Longrightarrow> \<not> stopping (cl_loop c a) \<Longrightarrow>
      Inv (cl_set_loop c (ls_loop_stop LS_EXIT_FAILURE (cl_loop c a)) a) w"
    and inv_revents: "Inv a w \<Longrightarrow> Inv (cl_set_loop c ((cl_loop c a)\<lparr>fds := set_revents rs (fds (cl_loop c a))\<rparr>) a) w"
    and inv_world: "Inv a w \<Longrightarrow> evolves is_Stderr w w' \<Longrightarrow> Inv a w'"
    and inv_fd: "Inv a w \<Longrightarrow> \<not> stopping (cl_loop c a) \<Longrightarrow> p \<in> set (fds (cl_loop c a)) \<Longrightarrow> fd_cb p = Fd_cb f \<Longrightarrow>
      cl_fd_cb c f (poll_fd p) a w = (a', w') \<Longrightarrow> Inv a' w'"
    and inv_signal: "Inv a w \<Longrightarrow> \<not> stopping (cl_loop c a) \<Longrightarrow> signal_cb (cl_loop c a) = Some s \<Longrightarrow>
      cl_signal_cb c s n a w = (a', w') \<Longrightarrow> Inv a' w'"
begin

lemma inv_refresh:
  assumes "Inv a w" "\<not> stopping (cl_loop c a)" "refresh_now (cl_loop c a) w = (ok, l, w')"
  shows "Inv (cl_set_loop c l a) w'"
proof (cases ok)
  case False
  have "Inv a w'"
    by (rule inv_world [OF assms(1) refresh_now_evolves [OF assms(3)]])
  then show ?thesis
    using refresh_now_loop [OF assms(3)] inv_stop [OF _ assms(2)] False by simp
qed (use assms inv_now in simp)

lemma inv_dispatch_signal:
  assumes "Inv a w" "\<not> stopping (cl_loop c a)" "dispatch_signal_fd c a w = (a', w')"
  shows "Inv a' w'"
proof -
  have "Inv a (snd (ask os_sigread w))"
    by (rule inv_world [OF assms(1)]) auto
  with assms inv_signal show ?thesis
    by (auto simp: dispatch_signal_fd_def ask_def split: option.splits)
qed

lemma inv_dispatch: "Inv a w \<Longrightarrow> dispatch_slots c is (a, w) = (a', w') \<Longrightarrow> Inv a' w'"
proof (induction "is" arbitrary: a w)
  case (Cons i "is")
  let ?l = "cl_loop c a"
  let ?p = "fds ?l ! i"
  have log: "Inv a (ls_warn lg t w)" "Inv a (ls_error lg t w)" for lg t
    using Cons.prems(1) inv_world by (meson evolves_refl log_evolves effect.disc(1))+
  consider (off) "\<not> (i < length (fds ?l) \<and> \<not> stopping ?l)"
    | (err) "i < length (fds ?l)" "\<not> stopping ?l" "poll_revents ?p AND (POLLERR OR POLLHUP OR POLLNVAL) \<noteq> 0"
    | (norm) "i < length (fds ?l)" "\<not> stopping ?l" "poll_revents ?p AND (POLLERR OR POLLHUP OR POLLNVAL) = 0"
    by blast
  then show ?case
  proof cases
    case off
    with Cons.prems show ?thesis by (auto simp: Let_def)
  next
    case err
    with Cons.prems Cons.IH log inv_stop [OF log(2) err(2)] show ?thesis
      by (auto simp: Let_def split: if_splits)
  next
    case norm
    obtain b v where s: "(if poll_revents ?p AND POLLIN \<noteq> 0 then case fd_cb ?p of
          Dispatch_signal_fd \<Rightarrow> dispatch_signal_fd c a w | Fd_cb f \<Rightarrow> cl_fd_cb c f (poll_fd ?p) a w else (a, w)) = (b, v)"
      by (metis surj_pair)
    have p: "?p \<in> set (fds ?l)" using norm(1) by simp
    have "Inv b v"
    proof (cases "poll_revents ?p AND POLLIN = 0")
      case False
      with s show ?thesis
        using inv_dispatch_signal [OF Cons.prems(1) norm(2)] inv_fd [OF Cons.prems(1) norm(2) p]
        by (cases "fd_cb ?p") simp_all
    qed (use s Cons.prems(1) in simp)
    with Cons norm s show ?thesis
      by (simp add: Let_def)
  qed
qed simp

lemma inv_body:
  assumes "Inv a w" "\<not> stopping (cl_loop c a)" "loop_body c a w = (brk, a', w')"
  shows "Inv a' w'"
proof -
  obtain ok l1 w1 where r1: "refresh_now (cl_loop c a) w = (ok, l1, w1)" by (metis prod_cases3)
  define a1 where "a1 = cl_set_loop c l1 a"
  have i1: "Inv a1 w1" using inv_refresh [OF assms(1,2) r1] by (simp add: a1_def)
  obtain a2 w2 where f: "fire_timers c (a1, w1) = (a2, w2)" by (metis surj_pair)
  have i2: "Inv a2 w2" using inv_fire [OF i1] f by (simp add: fire_timers_def)
  define w3 where "w3 = w2\<lparr>tick := Suc (tick w2)\<rparr>"
  have i3: "Inv a2 w3" unfolding w3_def by (rule inv_world [OF i2]) auto
  show ?thesis
  proof (cases "ok \<and> \<not> stopping (cl_loop c a2)")
    case False
    with assms(3) r1 f i1 i2 show ?thesis
      by (auto simp: loop_body_def a1_def Let_def split: if_splits)
  next
    case True
    note body = assms(3) [unfolded loop_body_def r1 prod.case Let_def a1_def [symmetric] f ask_def w3_def [symmetric]]
    show ?thesis
    proof (cases "os_poll (world_os w2) (tick w2) (poll_timeout_ms (cl_loop c a2))")
      case (Inl e)
      have "Inv (cl_set_loop c (ls_loop_stop LS_EXIT_FAILURE (cl_loop c a2)) a2) (ls_error lg t w3)" for lg t
        using inv_world [OF inv_stop [OF i3]] True by (meson evolves_refl log_evolves effect.disc(1))
      with body True Inl i3 show ?thesis
        by (auto split: if_splits)
    next
      case (Inr rs)
      define l4 where "l4 = (cl_loop c a2)\<lparr>fds := set_revents rs (fds (cl_loop c a2))\<rparr>"
      define a4 where "a4 = cl_set_loop c l4 a2"
      have i4: "Inv a4 w3" using inv_revents [OF i3] by (simp add: a4_def l4_def)
      have l4: "cl_loop c a4 = l4" by (simp add: a4_def get_put)
      obtain ok5 l5 w5 where r5: "refresh_now l4 w3 = (ok5, l5, w5)" by (metis prod_cases3)
      have i5: "Inv (cl_set_loop c l5 a4) w5" using inv_refresh [OF i4] r5 l4 True by (simp add: l4_def)
      obtain a6 w6 where d: "dispatch_fds c (cl_set_loop c l5 a4, w5) = (a6, w6)" by (metis surj_pair)
      have "Inv a6 w6" using inv_dispatch [OF i5] d by (simp add: dispatch_fds_def)
      with body True Inr i4 i5 r5 d show ?thesis
        by (auto simp: l4_def [symmetric] a4_def [symmetric] split: if_splits)
    qed
  qed
qed

lemma inv_head: "loop_head c a0 w0 a w \<Longrightarrow> Inv a0 w0 \<Longrightarrow> Inv a w"
  by (induction rule: loop_head.induct) (auto intro: inv_body)

end

section \<open>Timers and the poll timeout\<close>

lemma nearest_le: "nearest_deadline ts \<le> UINT64_MAX \<and> (\<forall>t \<in> set ts. nearest_deadline ts \<le> deadline_ms t) \<and>
    (nearest_deadline ts = UINT64_MAX \<or> nearest_deadline ts \<in> deadline_ms ` set ts)"
proof (induction ts rule: rev_induct)
  case Nil
  show ?case by (simp add: nearest_deadline_def)
next
  case (snoc t ts)
  have n: "nearest_deadline (ts @ [t]) = (if deadline_ms t < nearest_deadline ts then deadline_ms t else nearest_deadline ts)"
    by (simp add: nearest_deadline_def)
  from snoc show ?case
    unfolding n by (auto intro: order.trans less_imp_le)
qed

lemma unat_ls_timer_step:
  assumes "unat now + unat interval < 18446744073709551615" "deadline_ms t \<le> now" "interval \<noteq> 0"
  shows "unat (deadline_ms (ls_timer_step interval now t)) =
    (if unat (deadline_ms t) + unat interval < unat now then unat now + unat interval
     else unat (deadline_ms t) + unat interval)"
proof -
  have d: "unat (deadline_ms t) \<le> unat now" using assms(2) by (simp add: word_le_nat_alt)
  have "unat (deadline_ms t) < 18446744073709551615" using d assms(1) by linarith
  then have armed: "ls_timer_armed t"
    by (auto simp: ls_timer_armed_def u64_eq_UINT64_MAX)
  show ?thesis
    using assms d by (simp add: ls_timer_step_def armed word_less_nat_alt unat_ls_add_sat)
qed

lemma int_cast_exact:
  fixes x :: u64
  shows "(word_of_int INT_MAX < x) = (INT_MAX < uint x)" "uint x \<le> INT_MAX \<Longrightarrow> sint (ucast x :: u32) = uint x"
proof -
  show "(word_of_int INT_MAX < x) = (INT_MAX < uint x)"
    by (simp add: word_less_def INT_MAX_def)
  assume x: "uint x \<le> INT_MAX"
  then have "uint (ucast x :: u32) = uint x"
    by (simp add: unsigned_ucast_eq take_bit_int_eq_self INT_MAX_def)
  moreover have "-2147483648 \<le> uint x" using uint_ge_0 [of x] by linarith
  ultimately show "sint (ucast x :: u32) = uint x"
    using x by (simp add: sint_uint signed_take_bit_int_eq_self INT_MAX_def)
qed

lemma poll_timeout_spec:
  "-1 \<le> poll_timeout_ms l \<and> poll_timeout_ms l \<le> INT_MAX \<and>
   (poll_timeout_ms l = -1 \<longleftrightarrow> (\<forall>t \<in> set (timers l). \<not> ls_timer_armed t)) \<and>
   (poll_timeout_ms l = 0 \<longleftrightarrow> (\<exists>t \<in> set (timers l). ls_timer_armed t \<and> deadline_ms t \<le> now_ms l)) \<and>
   (0 < poll_timeout_ms l \<longrightarrow>
      (\<forall>t \<in> set (timers l). uint (now_ms l) + poll_timeout_ms l \<le> uint (deadline_ms t)) \<and>
      (\<exists>t \<in> set (timers l). ls_timer_armed t \<and> poll_timeout_ms l = min INT_MAX (uint (deadline_ms t) - uint (now_ms l))))"
proof -
  define n where "n = nearest_deadline (timers l)"
  have n: "\<And>t. t \<in> set (timers l) \<Longrightarrow> n \<le> deadline_ms t" "n = UINT64_MAX \<or> n \<in> deadline_ms ` set (timers l)"
    using nearest_le [of "timers l"] by (auto simp: n_def)
  show ?thesis
  proof (cases "n = UINT64_MAX")
    case True
    then have "poll_timeout_ms l = -1" by (simp add: poll_timeout_ms_def n_def)
    moreover have "\<not> ls_timer_armed t" if "t \<in> set (timers l)" for t
      using n(1) [OF that] True by (simp add: ls_timer_armed_def antisym)
    ultimately show ?thesis by (auto simp: INT_MAX_def)
  next
    case False
    then obtain m where m: "m \<in> set (timers l)" "deadline_ms m = n" using n(2) by auto
    then have am: "ls_timer_armed m" using False by (simp add: ls_timer_armed_def)
    show ?thesis
    proof (cases "n \<le> now_ms l")
      case True
      then have "poll_timeout_ms l = 0" using False by (simp add: poll_timeout_ms_def n_def [symmetric])
      with m am True show ?thesis by (auto simp: INT_MAX_def)
    next
      case late: False
      then have lt: "uint (now_ms l) < uint n" by (simp add: word_less_def not_le)
      have diff: "uint (n - now_ms l) = uint n - uint (now_ms l)"
        using lt by (simp add: uint_sub_lem [THEN iffD1])
      have p: "poll_timeout_ms l = min INT_MAX (uint n - uint (now_ms l))"
        using False late by (simp add: poll_timeout_ms_def n_def [symmetric] int_cast_exact diff min_def Let_def)
      have pos: "0 < poll_timeout_ms l" using lt by (simp add: p INT_MAX_def)
      have "\<not> deadline_ms t \<le> now_ms l" if "t \<in> set (timers l)" for t
        using n(1) [OF that] late by (meson order.trans)
      moreover have "uint (now_ms l) + poll_timeout_ms l \<le> uint (deadline_ms t)" if "t \<in> set (timers l)" for t
        using n(1) [OF that] p by (simp add: word_le_def)
      moreover have "poll_timeout_ms l = min INT_MAX (uint (deadline_ms m) - uint (now_ms l))" "poll_timeout_ms l \<le> INT_MAX"
        using p m(2) by simp_all
      ultimately show ?thesis using pos m am by auto
    qed
  qed
qed

section \<open>Properties\<close>

text \<open>C38: The schedule of a periodic timer. When a due timer is stepped (and the clock is not within
  one interval of its own end), its next deadline lies strictly after the old one, never in the past
  and at most one interval ahead; the phase of the schedule is kept unless more than a whole interval
  was missed, in which case the schedule restarts from the present. A zero interval disarms the timer.\<close>
theorem timer_step_schedule:
  assumes "unat now + unat interval < 18446744073709551615" and "deadline_ms t \<le> now"
  shows "if interval = 0 then \<not> ls_timer_armed (ls_timer_step interval now t)
    else let d = unat (deadline_ms t); d' = unat (deadline_ms (ls_timer_step interval now t))
      in ls_timer_armed (ls_timer_step interval now t) \<and> d < d' \<and> unat now \<le> d' \<and> d' \<le> unat now + unat interval \<and>
         d' = (if unat now \<le> d + unat interval then d + unat interval else unat now + unat interval)"
proof (cases "interval = 0")
  case True
  then show ?thesis by (simp add: ls_timer_step_def ls_timer_disarm_def ls_timer_armed_def)
next
  case False
  then have "0 < unat interval" by (simp add: unat_gt_0)
  moreover have "unat (deadline_ms t) \<le> unat now"
    using assms(2) by (simp add: word_le_nat_alt)
  ultimately show ?thesis
    using assms(1) False unat_ls_timer_step [OF assms False]
    by (simp add: Let_def ls_timer_armed_def u64_eq_UINT64_MAX)
qed

theorem timer_step_schedule_witness:
  "deadline_ms (ls_timer_step 10 105 \<lparr>deadline_ms = 100, timer_cb = ()\<rparr>) = 110"
  using timer_step_schedule [of 105 10 "\<lparr>deadline_ms = 100, timer_cb = ()\<rparr>"]
  by (simp add: Let_def word_unat_eq_iff)

text \<open>C39: The loop never sleeps past a deadline and never spins for nothing. The timeout given to
  \<^verbatim>\<open>poll\<close> fits a 32-bit \<^verbatim>\<open>int\<close> (it lies between -1 and
  \<^verbatim>\<open>INT_MAX\<close>, whatever the 64-bit deadlines). It is -1 (sleep until an event) exactly when no
  timer is armed, 0 exactly when some armed timer is already due, and otherwise it ends no later than
  any deadline and is the distance to the deadline of an armed timer, cut at
  \<^verbatim>\<open>INT_MAX\<close> when that distance is larger.\<close>
theorem poll_timeout_exact:
  "-1 \<le> poll_timeout_ms l \<and> poll_timeout_ms l \<le> INT_MAX \<and>
   (poll_timeout_ms l = -1 \<longleftrightarrow> (\<forall>t \<in> set (timers l). \<not> ls_timer_armed t)) \<and>
   (poll_timeout_ms l = 0 \<longleftrightarrow> (\<exists>t \<in> set (timers l). ls_timer_armed t \<and> deadline_ms t \<le> now_ms l)) \<and>
   (0 < poll_timeout_ms l \<longrightarrow>
      (\<forall>t \<in> set (timers l). uint (now_ms l) + poll_timeout_ms l \<le> uint (deadline_ms t)) \<and>
      (\<exists>t \<in> set (timers l). ls_timer_armed t \<and> poll_timeout_ms l = min INT_MAX (uint (deadline_ms t) - uint (now_ms l))))"
  by (rule poll_timeout_spec)

theorem poll_timeout_exact_witness:
  "poll_timeout_ms ((ls_loop_init (ls_log_init LS_LOG_INFO) :: (unit, unit, unit) ls_loop_t)
     \<lparr>timers := [\<lparr>deadline_ms = 5000000000, timer_cb = ()\<rparr>], now_ms := 5\<rparr>) = 2147483647"
proof -
  let ?l = "(ls_loop_init (ls_log_init LS_LOG_INFO) :: (unit, unit, unit) ls_loop_t)
     \<lparr>timers := [\<lparr>deadline_ms = 5000000000, timer_cb = ()\<rparr>], now_ms := 5\<rparr>"
  have "poll_timeout_ms ?l \<noteq> -1" "poll_timeout_ms ?l \<noteq> 0" "-1 \<le> poll_timeout_ms ?l"
    using poll_timeout_exact [of ?l] by (simp_all add: ls_timer_armed_def UINT64_MAX_def)
  then have "0 < poll_timeout_ms ?l" by linarith
  then show ?thesis
    using poll_timeout_exact [of ?l] by (simp add: INT_MAX_def)
qed

text \<open>C40: Signal registration is all or nothing, as far as the kernel lets it be. When
  \<^verbatim>\<open>ls_loop_watch_signals\<close> fails on a loop with no signal channel, for whichever of its reasons,
  the loop object is the one it was given (up to the dead contents of \<^verbatim>\<open>previous_mask\<close>, whose
  validity flag is off), every descriptor that was opened has been closed, nothing else was done, and
  if the mask was changed then one call was made to set it back to exactly the mask from before; the
  mask is that one again unless the kernel refused this call, whose result the code discards. When it
  succeeds, the signals are blocked, the mask from before is the one saved for the teardown, and the
  channel is registered as a critical descriptor.\<close>
theorem watch_signals_atomic:
  assumes "ls_loop_watch_signals sigs cb l w = (r, l', w')" and "signal_fd l = -1"
    and "\<not> previous_mask_valid l" and "signal_cb l = None"
  shows "case r of
      Inl _ \<Rightarrow> l' = l\<lparr>previous_mask := previous_mask l'\<rparr> \<and>
        (trace w' = trace w \<or>
         (\<exists>a. (trace w' = trace w @ [Block_signals sigs, Restore_signals (signal_mask w) a] \<or>
             (\<exists>fd. trace w' = trace w @ [Block_signals sigs, Open_fd fd, Close_fd (int fd), Restore_signals (signal_mask w) a])) \<and>
             a = os_sigprocmask (world_os w) (Suc (Suc (tick w))))) \<and>
        (signal_mask w' = signal_mask w \<or> os_sigprocmask (world_os w) (Suc (Suc (tick w))) \<noteq> None)
    | Inr _ \<Rightarrow> signal_mask w' = signal_mask w \<union> (set sigs - {9, 19}) \<and> previous_mask l' = signal_mask w \<and>
        (\<exists>fd. trace w' = trace w @ [Block_signals sigs, Open_fd fd] \<and> signal_fd l' = int fd \<and>
        previous_mask_valid l' \<and> signal_cb l' = Some cb \<and>
        fds l' = fds l @ [\<lparr>poll_fd = int fd, poll_revents = 0, fd_cb = Dispatch_signal_fd, fd_critical = True\<rparr>])"
  using assms
  by (auto simp: ls_loop_watch_signals_def ls_loop_add_fd_def ls_err_set_def UNBLOCKABLE_def Let_def ask_def
      split: if_splits option.splits sum.splits)

theorem watch_signals_atomic_witness:
  "\<exists>r l' w'. ls_loop_watch_signals [2] () (ls_loop_init (ls_log_init LS_LOG_INFO) :: (unit, unit, unit) ls_loop_t)
     (boot sample_os) = (r, l', w') \<and> (\<exists>fd. signal_fd l' = int fd)"
proof -
  let ?l = "ls_loop_init (ls_log_init LS_LOG_INFO) :: (unit, unit, unit) ls_loop_t"
  obtain r l' w' where c: "ls_loop_watch_signals [2] () ?l (boot sample_os) = (r, l', w')"
    by (metis prod_cases3)
  then have "r = Inr ()"
    by (auto simp: ls_loop_watch_signals_def ls_loop_init_def ls_loop_add_fd_def LS_LOOP_MAX_FDS_def Let_def ask_def)
  with watch_signals_atomic [OF c] c show ?thesis
    by (auto simp: ls_loop_init_def)
qed

end
