(* ===== verification/LS_Stats.thy ===== *)
theory LS_Stats
  imports LS_Base
begin

text \<open>
  \<^verbatim>\<open>src/stats.h\<close> and \<^verbatim>\<open>src/stats.c\<close>: the cumulative counters. The abstract view of
  an accumulator is the list of latency samples (in microseconds) and the number of failures it
  has been given; \<open>stats_rel\<close> relates the two, and every operation refines the obvious update
  of the abstract view.
\<close>

section \<open>The accumulator\<close>

record ls_stats_t =
  st_ok :: u64
  st_failed :: u64
  latency_sum_us :: u64
  latency_min_us :: u64
  latency_max_us :: u64
  started_at_ms :: u64

definition LS_STATS_NO_SAMPLE :: u64 where
  "LS_STATS_NO_SAMPLE = UINT64_MAX"

definition LS_US_PER_MS_F :: double where
  "LS_US_PER_MS_F = u64_to_double LS_US_PER_MS"

definition ls_stats_init :: "world \<Rightarrow> ls_stats_t \<times> world" where
  "ls_stats_init w =
     (let (now, w) = ls_now_ms w
      in (\<lparr>st_ok = 0, st_failed = 0, latency_sum_us = 0, latency_min_us = LS_STATS_NO_SAMPLE,
           latency_max_us = LS_STATS_NO_SAMPLE, started_at_ms = now\<rparr>, w))"

definition latency_to_us :: "double \<Rightarrow> u64" where
  "latency_to_us latency_ms =
     (let latency_ms = (if latency_ms < 0 then 0 else latency_ms)
      in double_to_u64 (dmul latency_ms LS_US_PER_MS_F))"

definition ls_stats_add_ok :: "double \<Rightarrow> ls_stats_t \<Rightarrow> ls_stats_t" where
  "ls_stats_add_ok latency_ms s =
     (let s = s\<lparr>st_ok := ls_add_sat (st_ok s) 1\<rparr>;
          us = latency_to_us latency_ms;
          s = s\<lparr>latency_sum_us := ls_add_sat (latency_sum_us s) us\<rparr>;
          s = (if us < latency_min_us s then s\<lparr>latency_min_us := us\<rparr> else s)
      in if latency_max_us s = LS_STATS_NO_SAMPLE \<or> us > latency_max_us s
         then s\<lparr>latency_max_us := us\<rparr> else s)"

definition ls_stats_add_fail :: "ls_stats_t \<Rightarrow> ls_stats_t" where
  "ls_stats_add_fail s = s\<lparr>st_failed := ls_add_sat (st_failed s) 1\<rparr>"

definition ls_stats_total :: "ls_stats_t \<Rightarrow> u64" where
  "ls_stats_total s = ls_add_sat (st_ok s) (st_failed s)"

definition ls_stats_success_rate :: "ls_stats_t \<Rightarrow> double" where
  "ls_stats_success_rate s =
     (let total = ls_stats_total s
      in if total = 0 then 0 else dmul (ddiv (u64_to_double (st_ok s)) (u64_to_double total)) 100)"

definition ls_stats_avg_latency_ms :: "ls_stats_t \<Rightarrow> double" where
  "ls_stats_avg_latency_ms s =
     (if st_ok s = 0 then 0
      else ddiv (ddiv (u64_to_double (latency_sum_us s)) (u64_to_double (st_ok s))) LS_US_PER_MS_F)"

definition ls_stats_min_latency_ms :: "ls_stats_t \<Rightarrow> double" where
  "ls_stats_min_latency_ms s =
     (if latency_min_us s = LS_STATS_NO_SAMPLE then 0
      else ddiv (u64_to_double (latency_min_us s)) LS_US_PER_MS_F)"

definition ls_stats_max_latency_ms :: "ls_stats_t \<Rightarrow> double" where
  "ls_stats_max_latency_ms s =
     (if latency_max_us s = LS_STATS_NO_SAMPLE then 0
      else ddiv (u64_to_double (latency_max_us s)) LS_US_PER_MS_F)"

definition ls_stats_uptime_sec :: "ls_stats_t \<Rightarrow> world \<Rightarrow> u64 \<times> world" where
  "ls_stats_uptime_sec s w =
     (let (now, w) = ls_now_ms w
      in (if now = UINT64_MAX \<or> started_at_ms s = UINT64_MAX \<or> now < started_at_ms s then 0
          else (now - started_at_ms s) div LS_MS_PER_SEC, w))"

lemma snd_ls_stats_uptime_sec [simp, frame]:
  "snd (ls_stats_uptime_sec s w) = w\<lparr>tick := Suc (tick w)\<rparr>"
  by (simp add: ls_stats_uptime_sec_def case_prod_unfold Let_def)

lemma snd_ls_stats_init [simp, frame]: "snd (ls_stats_init w) = w\<lparr>tick := Suc (tick w)\<rparr>"
  by (simp add: ls_stats_init_def case_prod_unfold)

section \<open>Refinement of a list of samples\<close>

definition stats_rel :: "ls_stats_t \<Rightarrow> nat list \<Rightarrow> nat \<Rightarrow> bool" where
  "stats_rel s us fails \<longleftrightarrow>
     unat (st_ok s) = min (length us) (unat UINT64_MAX) \<and>
     unat (st_failed s) = min fails (unat UINT64_MAX) \<and>
     unat (latency_sum_us s) = min (sum_list us) (unat UINT64_MAX) \<and>
     (if us = [] then latency_min_us s = LS_STATS_NO_SAMPLE \<and> latency_max_us s = LS_STATS_NO_SAMPLE
      else unat (latency_min_us s) = Min (set us) \<and> unat (latency_max_us s) = Max (set us)) \<and>
     (\<forall>u \<in> set us. u < unat LS_STATS_NO_SAMPLE)"

lemma unat_NO_SAMPLE [simp]: "unat LS_STATS_NO_SAMPLE = 18446744073709551615"
  by (simp add: LS_STATS_NO_SAMPLE_def)

lemma stats_rel_init: "stats_rel (fst (ls_stats_init w)) [] 0"
  by (simp add: stats_rel_def ls_stats_init_def case_prod_unfold)

lemma stats_rel_add_fail: "stats_rel s us n \<Longrightarrow> stats_rel (ls_stats_add_fail s) us (Suc n)"
  by (auto simp: stats_rel_def ls_stats_add_fail_def unat_ls_add_sat)

lemma ls_stats_add_ok_fields:
  defines "us l \<equiv> latency_to_us l"
  shows "st_ok (ls_stats_add_ok l s) = ls_add_sat (st_ok s) 1"
    "st_failed (ls_stats_add_ok l s) = st_failed s"
    "latency_sum_us (ls_stats_add_ok l s) = ls_add_sat (latency_sum_us s) (us l)"
    "latency_min_us (ls_stats_add_ok l s) = min (us l) (latency_min_us s)"
    "latency_max_us (ls_stats_add_ok l s) =
       (if latency_max_us s = LS_STATS_NO_SAMPLE then us l else max (us l) (latency_max_us s))"
    "started_at_ms (ls_stats_add_ok l s) = started_at_ms s"
  by (auto simp: ls_stats_add_ok_def Let_def us_def min_def max_def)

lemma unat_min_u64: "unat (min a b) = min (unat a) (unat (b :: u64))"
  and unat_max_u64: "unat (max a b) = max (unat a) (unat (b :: u64))"
  by (simp_all add: min_def max_def word_le_nat_alt)

lemma stats_rel_add_ok:
  assumes rel: "stats_rel s us n" and sample: "latency_to_us l \<noteq> LS_STATS_NO_SAMPLE"
  shows "stats_rel (ls_stats_add_ok l s) (us @ [unat (latency_to_us l)]) n"
proof -
  let ?u = "unat (latency_to_us l)"
  have u: "?u < 18446744073709551615"
    using sample by (simp add: LS_STATS_NO_SAMPLE_def not_UINT64_MAX_iff)
  show ?thesis
  proof (cases "us = []")
    case True
    with rel u show ?thesis
      by (simp add: stats_rel_def ls_stats_add_ok_fields unat_ls_add_sat unat_min_u64)
  next
    case False
    with rel have m: "unat (latency_max_us s) = Max (set us)" "\<forall>x \<in> set us. x < 18446744073709551615"
      by (simp_all add: stats_rel_def)
    then have "unat (latency_max_us s) < 18446744073709551615"
      using False by simp
    then have "latency_max_us s \<noteq> LS_STATS_NO_SAMPLE"
      by (auto simp: LS_STATS_NO_SAMPLE_def)
    with rel u False show ?thesis
      by (auto simp: stats_rel_def ls_stats_add_ok_fields unat_ls_add_sat unat_min_u64 unat_max_u64
          min.commute max.commute)
  qed
qed

text \<open>The commands a monitor gives its accumulator, in order: \<open>Some l\<close> is a reply of latency
  \<open>l\<close>, \<open>None\<close> a failed probe.\<close>

definition stats_apply :: "double option \<Rightarrow> ls_stats_t \<Rightarrow> ls_stats_t" where
  "stats_apply e s = (case e of Some l \<Rightarrow> ls_stats_add_ok l s | None \<Rightarrow> ls_stats_add_fail s)"

lemma stats_apply_simps [simp]:
  "stats_apply (Some l) = ls_stats_add_ok l" "stats_apply None = ls_stats_add_fail"
  by (simp_all add: stats_apply_def fun_eq_iff)

definition sample_list :: "double option list \<Rightarrow> nat list" where
  "sample_list es = map (unat \<circ> latency_to_us) (List.map_filter id es)"

definition fail_count :: "double option list \<Rightarrow> nat" where
  "fail_count es = length (filter Option.is_none es)"

lemma sample_list_simps [simp]:
  "sample_list [] = []" "sample_list (es @ [None]) = sample_list es"
  "sample_list (es @ [Some l]) = sample_list es @ [unat (latency_to_us l)]"
  by (simp_all add: sample_list_def List.map_filter_def)

lemma fail_count_simps [simp]:
  "fail_count [] = 0" "fail_count (es @ [None]) = Suc (fail_count es)" "fail_count (es @ [Some l]) = fail_count es"
  by (simp_all add: fail_count_def)

lemma stats_rel_fold:
  assumes "\<forall>l. Some l \<in> set es \<longrightarrow> latency_to_us l \<noteq> LS_STATS_NO_SAMPLE"
  shows "stats_rel (fold stats_apply es (fst (ls_stats_init w))) (sample_list es) (fail_count es)"
  using assms
proof (induction es rule: rev_induct)
  case Nil
  then show ?case by (simp add: stats_rel_init)
next
  case (snoc e es)
  then have IH: "stats_rel (fold stats_apply es (fst (ls_stats_init w))) (sample_list es) (fail_count es)"
    by simp
  show ?case
  proof (cases e)
    case None
    with IH show ?thesis by (simp add: stats_rel_add_fail)
  next
    case (Some l)
    with snoc.prems IH show ?thesis by (simp add: stats_rel_add_ok)
  qed
qed

section \<open>Ordering of the figures\<close>

lemma LS_US_PER_MS_F_eq: "LS_US_PER_MS_F = 1000"
  using rnd64_nat [of 1000] by (simp add: LS_US_PER_MS_F_def u64_to_double_def)

lemma sum_list_bounds:
  fixes us :: "nat list"
  assumes "us \<noteq> []"
  shows "Min (set us) * length us \<le> sum_list us" "sum_list us \<le> Max (set us) * length us"
proof -
  have "sum_list (map (\<lambda>_. Min (set us)) us) \<le> sum_list (map id us)"
    by (rule sum_list_mono) simp
  then show "Min (set us) * length us \<le> sum_list us"
    by (simp add: sum_list_triv mult.commute)
  have "sum_list (map id us) \<le> sum_list (map (\<lambda>_. Max (set us)) us)"
    by (rule sum_list_mono) simp
  then show "sum_list us \<le> Max (set us) * length us"
    by (simp add: sum_list_triv mult.commute)
qed

lemma stats_rel_ordering:
  assumes rel: "stats_rel s us n" and "us \<noteq> []" and "length us < 2 ^ 53" and "sum_list us < 2 ^ 53"
  shows "ls_stats_min_latency_ms s \<le> ls_stats_avg_latency_ms s"
    and "ls_stats_avg_latency_ms s \<le> ls_stats_max_latency_ms s"
proof -
  from rel assms have ok: "unat (st_ok s) = length us" and sum: "unat (latency_sum_us s) = sum_list us"
    and lo: "unat (latency_min_us s) = Min (set us)" and hi: "unat (latency_max_us s) = Max (set us)"
    and lt: "\<forall>u \<in> set us. u < 18446744073709551615"
    by (simp_all add: stats_rel_def)
  have len: "0 < length us" using assms(2) by simp
  have ok0: "st_ok s \<noteq> 0" using ok len by (metis less_not_refl unat_0)
  have "unat (latency_min_us s) < 18446744073709551615" "unat (latency_max_us s) < 18446744073709551615"
    using lo hi lt assms(2) by simp_all
  then have ns: "latency_min_us s \<noteq> LS_STATS_NO_SAMPLE" "latency_max_us s \<noteq> LS_STATS_NO_SAMPLE"
    by (auto simp: LS_STATS_NO_SAMPLE_def)
  have nz: "rnd64 (of_nat (length us)) \<noteq> 0" using rnd64_pos [of "of_nat (length us)"] len by simp
  have mean_lo: "u64_to_double (latency_min_us s) \<le>
      ddiv (u64_to_double (latency_sum_us s)) (u64_to_double (st_ok s))"
    unfolding u64_to_double_def ddiv_def ok sum lo if_not_P [OF nz]
    by (rule b64.rnd_mean_ge) (use len assms sum_list_bounds in auto)
  have mean_hi: "ddiv (u64_to_double (latency_sum_us s)) (u64_to_double (st_ok s)) \<le>
      u64_to_double (latency_max_us s)"
    unfolding u64_to_double_def ddiv_def ok sum hi if_not_P [OF nz]
    by (rule b64.rnd_mean_le) (use len assms sum_list_bounds in auto)
  show "ls_stats_min_latency_ms s \<le> ls_stats_avg_latency_ms s"
    using mean_lo ns(1) ok0
    by (simp add: ls_stats_min_latency_ms_def ls_stats_avg_latency_ms_def LS_US_PER_MS_F_eq ddiv_mono)
  show "ls_stats_avg_latency_ms s \<le> ls_stats_max_latency_ms s"
    using mean_hi ns(2) ok0
    by (simp add: ls_stats_max_latency_ms_def ls_stats_avg_latency_ms_def LS_US_PER_MS_F_eq ddiv_mono)
qed

text \<open>The latency that \<^verbatim>\<open>app.c\<close> derives from two 64-bit nanosecond readings is far
  below the \<open>no sample\<close> sentinel, at any distance of the readings.\<close>

lemma latency_to_us_below_sentinel:
  assumes "0 \<le> l" "l \<le> 40000000000000"
  shows "latency_to_us l \<noteq> LS_STATS_NO_SAMPLE"
proof -
  have l: "0 \<le> l * 1000" "l * 1000 \<le> 40000000000000000"
    using assms by auto
  have "0 \<le> dmul l 1000"
    using assms by (simp add: dmul_nonneg)
  moreover have "dmul l 1000 \<le> 80000000000000000"
    using rnd64_le_twice [OF l(1)] l(2) by (simp add: dmul_def)
  ultimately have f: "0 \<le> \<lfloor>dmul l 1000\<rfloor>" "\<lfloor>dmul l 1000\<rfloor> \<le> 80000000000000000"
    by (simp_all add: floor_le_iff)
  then have "unat (latency_to_us l) = nat \<lfloor>dmul l 1000\<rfloor>"
    using assms
    by (simp add: latency_to_us_def LS_US_PER_MS_F_eq double_to_u64_def unat_eq_nat_uint uint_word_of_int)
  moreover have "nat \<lfloor>dmul l 1000\<rfloor> \<le> 80000000000000000"
    using f by linarith
  ultimately have "unat (latency_to_us l) \<noteq> 18446744073709551615"
    by linarith
  then show ?thesis
    by (auto simp: LS_STATS_NO_SAMPLE_def)
qed

section \<open>Properties\<close>

text \<open>C13: Whatever sequence of replies and failures is recorded, the accumulator holds the
  number of replies, the number of failures and the sum of the latencies (each capped at
  \<^verbatim>\<open>UINT64_MAX\<close>) and the exact smallest and largest latency; with no reply both
  extremes hold the sentinel. In particular the first reply clears the sentinel of the maximum.\<close>
theorem stats_refine_history:
  assumes "\<forall>l. Some l \<in> set es \<longrightarrow> 0 \<le> l \<and> l \<le> 40000000000000"
  shows "stats_rel (fold stats_apply es (fst (ls_stats_init w))) (sample_list es) (fail_count es)"
  using assms by (intro stats_rel_fold) (auto simp: latency_to_us_below_sentinel)

theorem stats_refine_history_witness:
  "stats_rel (fold stats_apply [Some 10, None, Some 20] (fst (ls_stats_init (boot sample_os))))
     (sample_list [Some 10, None, Some 20]) (fail_count [Some 10, None, Some 20])"
  by (rule stats_refine_history) auto

text \<open>C23: The figures of the statistics line are ordered: minimum \<open>\<le>\<close> average \<open>\<le>\<close>
  maximum, in the rounded \<^verbatim>\<open>double\<close> arithmetic the program uses, as long as fewer than
  $2^{53}$ replies and microseconds have been summed.\<close>
theorem stats_figures_ordered:
  assumes "\<forall>l. Some l \<in> set es \<longrightarrow> 0 \<le> l \<and> l \<le> 40000000000000"
    and "s = fold stats_apply es (fst (ls_stats_init w))"
    and "sample_list es \<noteq> []" "length (sample_list es) < 2 ^ 53" "sum_list (sample_list es) < 2 ^ 53"
  shows "ls_stats_min_latency_ms s \<le> ls_stats_avg_latency_ms s \<and>
    ls_stats_avg_latency_ms s \<le> ls_stats_max_latency_ms s"
proof -
  have "stats_rel s (sample_list es) (fail_count es)"
    unfolding assms(2) using assms(1) by (intro stats_rel_fold) (auto simp: latency_to_us_below_sentinel)
  then show ?thesis
    using assms(3-5) stats_rel_ordering by blast
qed

theorem stats_figures_ordered_witness:
  "let s = fold stats_apply [Some 0, None] (fst (ls_stats_init (boot sample_os)))
   in ls_stats_min_latency_ms s \<le> ls_stats_avg_latency_ms s \<and>
      ls_stats_avg_latency_ms s \<le> ls_stats_max_latency_ms s"
proof -
  have z: "latency_to_us 0 = 0"
    by (simp add: latency_to_us_def dmul_def rnd64_def double_to_u64_def)
  have "sample_list [Some 0, None] = [0]" "sample_list [Some 0, None] \<noteq> []"
    by (simp_all add: sample_list_def List.map_filter_def z)
  then show ?thesis
    unfolding Let_def by (intro stats_figures_ordered [where es = "[Some 0, None]"]) auto
qed

text \<open>C24: The success rate is a percentage, in rounded arithmetic and for saturated counters too: it is
  exactly 0 while nothing has succeeded (no probe at all included, where the quotient would not be a
  number), exactly 100 while nothing has failed, and otherwise positive and at most 100.\<close>
theorem success_rate_percentage:
  "if st_ok s = 0 then ls_stats_success_rate s = 0
   else if st_failed s = 0 then ls_stats_success_rate s = 100
   else 0 < ls_stats_success_rate s \<and> ls_stats_success_rate s \<le> 100"
proof (cases "st_ok s = 0")
  case True
  then show ?thesis
    by (simp add: ls_stats_success_rate_def Let_def ddiv_zero dmul_def u64_to_double_pos u64_to_double_exact b64.rnd_zero)
next
  case False
  have le: "st_ok s \<le> ls_stats_total s"
    by (simp add: ls_stats_total_def ls_add_sat_ge)
  then have total: "ls_stats_total s \<noteq> 0" using False by auto
  define q where "q = ddiv (u64_to_double (st_ok s)) (u64_to_double (ls_stats_total s))"
  have rate: "ls_stats_success_rate s = rnd64 (q * 100)"
    using total by (simp add: ls_stats_success_rate_def Let_def dmul_def q_def)
  have q: "0 < q" "q \<le> 1"
    unfolding q_def using False total le
    by (simp_all add: ddiv_pos ddiv_le_one u64_to_double_pos u64_to_double_mono)
  then have "0 < rnd64 (q * 100)" "rnd64 (q * 100) \<le> of_nat 100"
    by (simp add: rnd64_pos, intro b64.rnd_le_nat) simp_all
  moreover have "rnd64 (q * 100) = 100" if "st_failed s = 0"
    using that False rnd64_nat [of 100]
    by (simp add: q_def ls_stats_total_def ls_add_sat_def ddiv_self u64_to_double_pos)
  ultimately show ?thesis using False rate by simp
qed

end
