(* ===== verification/LS_App.thy ===== *)
theory LS_App
  imports LS_Config LS_Icmp LS_Notify LS_Loop LS_Stats
begin

text \<open>
  \<^verbatim>\<open>src/app.c\<close>: probe scheduling, the threshold action, start-up and shutdown, and
  \<^verbatim>\<open>main\<close>. A pointer to a timer slot is the index of the slot. \<open>consecutive_fails\<close> is an
  \<open>int\<close> without wrap-around, because overflow of the C \<^verbatim>\<open>int\<close> is undefined.
\<close>

section \<open>State\<close>

definition LS_PACKET_SIZE :: nat where "LS_PACKET_SIZE = 64"
definition LS_MAX_REPLY_DRAIN_PER_WAKEUP :: nat where "LS_MAX_REPLY_DRAIN_PER_WAKEUP = 32"
definition LS_NS_PER_MS_F :: double where "LS_NS_PER_MS_F = u64_to_double LS_NS_PER_MS"
definition LS_WARN_THRESHOLD_MIN_WITH_POWEROFF :: int where "LS_WARN_THRESHOLD_MIN_WITH_POWEROFF = 3"
definition LS_STARTUP_GRACE_MS :: u64 where "LS_STARTUP_GRACE_MS = 1000"
definition LS_SHUTDOWN_RETRY_MS :: nat where "LS_SHUTDOWN_RETRY_MS = 50"

definition SIGINT :: nat where "SIGINT = 2"
definition SIGUSR1 :: nat where "SIGUSR1 = 10"
definition SIGTERM :: nat where "SIGTERM = 15"

datatype action_result_t = LS_ACTION_SIMULATED | LS_ACTION_TRIGGERED | LS_ACTION_FAILED

text \<open>The functions the application registers with the loop.\<close>

datatype app_timer_cb = On_ping_timer | On_reply_timer | On_watchdog_timer
datatype app_fd_cb = On_icmp_readable
datatype app_signal_cb = On_signal

type_synonym app_loop_t = "(app_timer_cb, app_fd_cb, app_signal_cb) ls_loop_t"

record app_t =
  app_config :: ls_config_t
  app_log :: ls_log_t
  app_stats :: ls_stats_t
  app_icmp :: ls_icmp_t
  app_notify :: ls_notify_t
  app_dest :: sockaddr_storage
  app_dest_len :: nat
  app_identifier :: u16
  app_loop :: app_loop_t
  ping_timer :: nat
  reply_timer :: nat
  watchdog_timer :: nat
  probe_sent_ns :: u64
  probe_sequence :: u16
  consecutive_fails :: int
  watchdog_last_failed :: bool

definition set_app_loop :: "app_loop_t \<Rightarrow> app_t \<Rightarrow> app_t" where
  "set_app_loop l app = app\<lparr>app_loop := l\<rparr>"

definition upd_timer :: "(app_timer_cb ls_timer_t \<Rightarrow> app_timer_cb ls_timer_t) \<Rightarrow> nat \<Rightarrow> app_t \<Rightarrow> app_t" where
  "upd_timer f i app =
     (let l = app_loop app in app\<lparr>app_loop := l\<lparr>timers := (timers l)[i := f (timers l ! i)]\<rparr>\<rparr>)"

section \<open>Shutdown action\<close>

definition SHUTDOWN_ENVP :: "string list" where
  "SHUTDOWN_ENVP = [''PATH=/usr/bin:/usr/sbin:/bin:/sbin'', ''LC_ALL=C'']"

definition SHUTDOWN_ARGV :: "string list" where
  "SHUTDOWN_ARGV = [LS_SYSTEMCTL_PATH, ''--no-block'', ''poweroff'']"

definition sleep_retry_window :: "(timespec \<Rightarrow> errno option attempt) \<Rightarrow> bool" where
  "sleep_retry_window nanosleep \<longleftrightarrow>
     settle (nanosleep \<lparr>tv_sec = 0, tv_nsec = int (LS_SHUTDOWN_RETRY_MS * unat LS_NS_PER_MS)\<rparr>) = None"

definition consume_child_status :: "wait_status \<Rightarrow> ls_log_t \<Rightarrow> world \<Rightarrow> action_result_t \<times> world" where
  "consume_child_status status lg w =
     (case status of
        WIFEXITED code \<Rightarrow>
          (if code = 0 then (LS_ACTION_TRIGGERED, ls_info lg ''Shutdown command accepted by systemd'' w)
           else (LS_ACTION_FAILED, ls_error lg (''Shutdown command failed with exit code '' @ show_nat code @ '': '' @
                   LS_SYSTEMCTL_PATH) w))
      | WIFSIGNALED sig \<Rightarrow> (LS_ACTION_FAILED, ls_error lg (''Shutdown command terminated by signal '' @ show_nat sig) w)
      | W_other \<Rightarrow> (LS_ACTION_FAILED, ls_error lg ''Shutdown command exited unexpectedly'' w))"

text \<open>The \<^verbatim>\<open>while (true)\<close> loop of \<^verbatim>\<open>observe_startup\<close>.\<close>

primrec observe_loop :: "child_obs \<Rightarrow> nat \<Rightarrow> u64 \<Rightarrow> ls_log_t \<Rightarrow> world \<Rightarrow> action_result_t \<times> world" where
  "observe_loop (Wait_interrupted rest) child_pid deadline lg w = observe_loop rest child_pid deadline lg w"
| "observe_loop (Wait_failed e) child_pid deadline lg w =
     (LS_ACTION_FAILED, ls_error lg (''waitpid() failed: '' @ os_strerror (world_os w) e) w)"
| "observe_loop (Wait_status status) child_pid deadline lg w =
     consume_child_status status lg (emit (Reap_child child_pid) w)"
| "observe_loop (Wait_pending sleep rest) child_pid deadline lg w =
     (let (now, w) = ls_now_ms w
      in if now = UINT64_MAX
         then (LS_ACTION_FAILED, ls_error lg
                ''Unable to confirm shutdown command result: monotonic clock unavailable'' w)
         else if now \<ge> deadline
         then let w = ls_warn lg ''Shutdown command did not exit within startup grace; terminating it'' w;
                  w = emit (Kill_child child_pid) w;
                  (r, w) = ask os_reap w;
                  w = (case settle r of Inl _ \<Rightarrow> w | Inr _ \<Rightarrow> emit (Reap_child child_pid) w)
              in (LS_ACTION_FAILED, w)
         else if \<not> sleep_retry_window sleep
         then (LS_ACTION_FAILED, ls_error lg ''Startup observation sleep interrupted by non-retryable error'' w)
         else observe_loop rest child_pid deadline lg w)"

definition observe_startup :: "nat \<Rightarrow> ls_log_t \<Rightarrow> world \<Rightarrow> action_result_t \<times> world" where
  "observe_startup child_pid lg w =
     (let (start, w) = ls_now_ms w
      in if start = UINT64_MAX
         then (LS_ACTION_FAILED, ls_error lg
                ''Unable to confirm shutdown command result: monotonic clock unavailable'' w)
         else let deadline = ls_add_sat start LS_STARTUP_GRACE_MS; (obs, w) = ask os_child w
              in observe_loop obs child_pid deadline lg w)"

text \<open>The three \<^verbatim>\<open>addopen\<close> calls; the first failure ends the chain.\<close>

fun prepare_stdio :: "nat \<Rightarrow> world \<Rightarrow> errno option \<times> world" where
  "prepare_stdio 0 w = (None, w)"
| "prepare_stdio (Suc n) w =
     (let (rc, w) = ask os_file_actions w
      in case rc of None \<Rightarrow> prepare_stdio n w | Some e \<Rightarrow> (Some e, w))"

definition spawn_shutdown_command :: "ls_log_t \<Rightarrow> world \<Rightarrow> action_result_t \<times> world" where
  "spawn_shutdown_command lg w =
     (let (rc, w) = ask os_file_actions w
      in case rc of
           Some e \<Rightarrow> (LS_ACTION_FAILED, ls_error lg (''posix_spawn_file_actions_init() failed: '' @
                       os_strerror (world_os w) e) w)
         | None \<Rightarrow>
             (let (rc, w) = prepare_stdio 3 w
              in case rc of
                   Some e \<Rightarrow> (LS_ACTION_FAILED, ls_error lg (''Failed to prepare stdio redirection: '' @
                               os_strerror (world_os w) e) w)
                 | None \<Rightarrow>
                     (let (r, w) = ask os_spawn w;
                          w = emit (Spawn (hd SHUTDOWN_ARGV) SHUTDOWN_ARGV SHUTDOWN_ENVP) w
                      in case r of
                           Inl e \<Rightarrow> (LS_ACTION_FAILED, ls_error lg (''posix_spawn() failed: '' @
                                       os_strerror (world_os w) e) w)
                         | Inr child_pid \<Rightarrow> observe_startup child_pid lg w)))"

definition run_shutdown_action :: "bool \<Rightarrow> ls_log_t \<Rightarrow> world \<Rightarrow> action_result_t \<times> world" where
  "run_shutdown_action pow lg w =
     (if \<not> pow
      then let w = ls_warn lg ''Failure threshold reached; poweroff is disabled (dry-run)'' w;
               w = ls_info lg (''[DRY-RUN] Would run '' @ LS_SYSTEMCTL_PATH @ '' --no-block poweroff'') w
           in (LS_ACTION_SIMULATED, w)
      else spawn_shutdown_command lg
             (ls_warn lg ''Failure threshold reached; triggering system shutdown now'' w))"

section \<open>Error path\<close>

text \<open>A status update whose result the caller ignores.\<close>

definition app_statusf :: "string \<Rightarrow> app_t \<Rightarrow> world \<Rightarrow> app_t \<times> world" where
  "app_statusf text app w =
     (let (_, n, w) = ls_notify_statusf (app_notify app) text w in (app\<lparr>app_notify := n\<rparr>, w))"

definition app_stop :: "int \<Rightarrow> app_t \<Rightarrow> app_t" where
  "app_stop code app = app\<lparr>app_loop := ls_loop_stop code (app_loop app)\<rparr>"

definition app_fail :: "string \<Rightarrow> ls_err_t \<Rightarrow> app_t \<Rightarrow> world \<Rightarrow> app_t \<times> world" where
  "app_fail what err app w =
     (let w = ls_error (app_log app) (what @ '': '' @ err) w;
          (app, w) = app_statusf (''Error: '' @ what @ '': '' @ err) app w
      in (app_stop LS_EXIT_FAILURE app, w))"

section \<open>Statistics reporting\<close>

definition log_statistics :: "app_t \<Rightarrow> world \<Rightarrow> world" where
  "log_statistics app w =
     (let s = app_stats app;
          (up, w) = ls_stats_uptime_sec s w;
          uptime_str = ls_format_uptime up 32;
          total = ls_stats_total s;
          plural = (if total = 1 then '''' else ''s'')
      in if st_ok s > 0
         then let min_str = ls_format_latency (ls_stats_min_latency_ms s) 32;
                  avg_str = ls_format_latency (ls_stats_avg_latency_ms s) 32;
                  max_str = ls_format_latency (ls_stats_max_latency_ms s) 32
              in ls_info (app_log app)
                   (''Statistics: uptime '' @ uptime_str @ '' | '' @ show_u64 total @ '' ping'' @ plural @ '', '' @
                    show_u64 (st_ok s) @ '' OK, '' @ show_u64 (st_failed s) @ '' failed ('' @
                    show_fixed 2 (ls_stats_success_rate s) @ ''% success) | latency min '' @ min_str @
                    '', avg '' @ avg_str @ '', max '' @ max_str) w
         else ls_info (app_log app)
                (''Statistics: uptime '' @ uptime_str @ '' | '' @ show_u64 total @ '' ping'' @ plural @
                 '', 0 OK, '' @ show_u64 (st_failed s) @ '' failed (0.00% success) | latency N/A'') w)"

section \<open>Probe lifecycle\<close>

definition probe_reset :: "app_t \<Rightarrow> app_t" where
  "probe_reset app =
     (let app = app\<lparr>probe_sent_ns := 0, probe_sequence := 0\<rparr>
      in upd_timer ls_timer_disarm (reply_timer app) app)"

definition probe_failed :: "string \<Rightarrow> app_t \<Rightarrow> world \<Rightarrow> app_t \<times> world" where
  "probe_failed reason app w =
     (let app = app\<lparr>consecutive_fails := consecutive_fails app + 1\<rparr>;
          app = app\<lparr>app_stats := ls_stats_add_fail (app_stats app)\<rparr>;
          w = ls_warn (app_log app) (''Probe to '' @ target (app_config app) @ '' failed: '' @ reason @ '' (failure '' @
                show_int (consecutive_fails app) @ '' of '' @ show_int (fail_threshold (app_config app)) @ '')'') w
      in app_statusf (''Unreachable: '' @ target (app_config app) @ '', '' @ show_int (consecutive_fails app) @ ''/'' @
            show_int (fail_threshold (app_config app)) @ '' consecutive failures'') app w)"

definition probe_succeeded :: "u16 \<Rightarrow> double \<Rightarrow> app_t \<Rightarrow> world \<Rightarrow> app_t \<times> world" where
  "probe_succeeded sequence latency_ms app w =
     (let app = app\<lparr>consecutive_fails := 0\<rparr>;
          app = app\<lparr>app_stats := ls_stats_add_ok latency_ms (app_stats app)\<rparr>;
          s = app_stats app;
          latency_str = ls_format_latency latency_ms 32;
          avg_str = ls_format_latency (ls_stats_avg_latency_ms s) 32;
          (up, w) = ls_stats_uptime_sec s w;
          uptime_str = ls_format_uptime up 32;
          total = ls_stats_total s;
          w = ls_debug (app_log app)
                (''Reply from '' @ target (app_config app) @ '': seq='' @ show_nat (unat sequence) @ '' time='' @
                 latency_str @ '' avg='' @ avg_str @ '' ok='' @ show_u64 (st_ok s) @ ''/'' @ show_u64 total @ '' ('' @
                 show_fixed 1 (ls_stats_success_rate s) @ ''%)'') w
      in app_statusf (''Online: '' @ target (app_config app) @ '' up '' @ uptime_str @ '', last '' @ latency_str @
           '', avg '' @ avg_str @ '', '' @ show_u64 (st_ok s) @ ''/'' @ show_u64 total @ '' OK ('' @
           show_fixed 1 (ls_stats_success_rate s) @ ''%)'') app w)"

definition check_threshold :: "app_t \<Rightarrow> world \<Rightarrow> app_t \<times> world" where
  "check_threshold app w =
     (if consecutive_fails app < fail_threshold (app_config app) then (app, w)
      else let (result, w) = run_shutdown_action (poweroff (app_config app)) (app_log app) w
           in if result = LS_ACTION_SIMULATED
              then (app_stop LS_EXIT_SUCCESS app,
                    ls_info (app_log app) ''Dry-run complete: simulated shutdown reached, exiting monitor loop'' w)
              else if result \<noteq> LS_ACTION_TRIGGERED
              then (app, ls_error (app_log app)
                      ''Shutdown command failed; continuing monitoring with failure count preserved'' w)
              else (app_stop LS_EXIT_SUCCESS app,
                    ls_info (app_log app) ''Shutdown triggered, exiting monitor loop'' w))"

definition probe_latency :: "u64 \<Rightarrow> u64 \<Rightarrow> double" where
  "probe_latency now_ns sent_ns =
     (if now_ns \<noteq> UINT64_MAX \<and> sent_ns \<noteq> UINT64_MAX \<and> now_ns \<ge> sent_ns
      then ddiv (u64_to_double (now_ns - sent_ns)) LS_NS_PER_MS_F else 0)"

fun drain_loop :: "nat \<Rightarrow> app_t \<Rightarrow> world \<Rightarrow> bool \<times> app_t \<times> world" where
  "drain_loop 0 app w = (False, app, w)"
| "drain_loop (Suc n) app w =
     (let (status, err, icmp, w) = ls_icmp_recv (app_icmp app) (app_dest app) (app_identifier app)
                                     (probe_sequence app) w;
          app = app\<lparr>app_icmp := icmp\<rparr>
      in if status = LS_ICMP_RECV_NO_MORE then (False, app, w)
         else if status = LS_ICMP_RECV_ERROR
         then let app = probe_reset app; (app, w) = app_fail ''ICMP receive failed'' err app w
              in (False, app, w)
         else if status = LS_ICMP_RECV_MATCHED \<and> ls_timer_armed (timers (app_loop app) ! reply_timer app)
         then let (now_ns, w) = ls_now_ns w;
                  latency_ms = probe_latency now_ns (probe_sent_ns app);
                  sequence = probe_sequence app;
                  app = probe_reset app;
                  (app, w) = probe_succeeded sequence latency_ms app w
              in (True, app, w)
         else drain_loop n app w)"

definition drain_and_match_reply :: "app_t \<Rightarrow> world \<Rightarrow> bool \<times> app_t \<times> world" where
  "drain_and_match_reply app w = drain_loop LS_MAX_REPLY_DRAIN_PER_WAKEUP app w"

section \<open>Loop callbacks\<close>

definition on_ping_timer :: "app_t \<Rightarrow> world \<Rightarrow> app_t \<times> world" where
  "on_ping_timer app w =
     (let now = ls_loop_now (app_loop app);
          app = upd_timer (ls_timer_step (interval_ms (app_config app)) now) (ping_timer app) app
      in if ls_timer_armed (timers (app_loop app) ! reply_timer app) then (app, w)
         else let (status, err, icmp, w) = ls_icmp_send_echo (app_icmp app) (app_dest app) (app_dest_len app) (app_identifier app)
                                             LS_PACKET_SIZE w;
                  app = app\<lparr>app_icmp := icmp\<rparr>
              in if status = LS_ICMP_SEND_ERROR then app_fail ''Failed to send ICMP echo'' err app w
                 else if status = LS_ICMP_SEND_UNREACHABLE
                 then let (app, w) = probe_failed err app w in check_threshold app w
                 else let (sent, w) = ls_now_ns w;
                          app = app\<lparr>probe_sent_ns := sent, probe_sequence := icmp_sequence (app_icmp app)\<rparr>
                      in (upd_timer (ls_timer_arm_after now (timeout_ms (app_config app))) (reply_timer app) app, w))"

definition on_reply_timer :: "app_t \<Rightarrow> world \<Rightarrow> app_t \<times> world" where
  "on_reply_timer app w =
     (let (matched, app, w) = drain_and_match_reply app w
      in if matched then (app, w)
         else if ls_loop_stopping (app_loop app) then (app, w)
         else let app = probe_reset app;
                  timeout_str = ls_format_duration (timeout_ms (app_config app)) 32;
                  reason = c_snprintf 64 (''no reply within '' @ timeout_str);
                  (app, w) = probe_failed reason app w
              in check_threshold app w)"

definition on_watchdog_timer :: "app_t \<Rightarrow> world \<Rightarrow> app_t \<times> world" where
  "on_watchdog_timer app w =
     (let (sent, w) = ls_notify_watchdog (app_notify app) w;
          app = upd_timer (ls_timer_step (ls_notify_watchdog_interval_ms (app_notify app))
                             (ls_loop_now (app_loop app))) (watchdog_timer app) app;
          w = (if \<not> sent \<and> \<not> watchdog_last_failed app
               then ls_warn (app_log app) ''Failed to send systemd WATCHDOG notification'' w
               else if sent \<and> watchdog_last_failed app
               then ls_info (app_log app) ''systemd WATCHDOG notification recovered'' w
               else w)
      in (app\<lparr>watchdog_last_failed := \<not> sent\<rparr>, w))"

definition on_icmp_readable :: "app_t \<Rightarrow> world \<Rightarrow> app_t \<times> world" where
  "on_icmp_readable app w = (let (_, app, w) = drain_and_match_reply app w in (app, w))"

definition on_signal :: "nat \<Rightarrow> app_t \<Rightarrow> world \<Rightarrow> app_t \<times> world" where
  "on_signal signo app w =
     (if signo = SIGINT \<or> signo = SIGTERM then (app_stop LS_EXIT_SUCCESS app, w)
      else if signo = SIGUSR1 then (app, log_statistics app w)
      else (app, w))"

text \<open>How the loop reaches the application.\<close>

primrec app_timer_callback :: "app_timer_cb \<Rightarrow> app_t \<Rightarrow> world \<Rightarrow> app_t \<times> world" where
  "app_timer_callback On_ping_timer = on_ping_timer"
| "app_timer_callback On_reply_timer = on_reply_timer"
| "app_timer_callback On_watchdog_timer = on_watchdog_timer"

definition app_client :: "(app_t, app_timer_cb, app_fd_cb, app_signal_cb) client" where
  "app_client =
     \<lparr>cl_loop = app_loop, cl_set_loop = set_app_loop, cl_timer_cb = app_timer_callback,
      cl_fd_cb = (\<lambda>_ _. on_icmp_readable), cl_signal_cb = (\<lambda>_. on_signal)\<rparr>"

lemma app_client_simps [simp]:
  "cl_loop app_client = app_loop" "cl_set_loop app_client = set_app_loop"
  "cl_timer_cb app_client = app_timer_callback" "cl_fd_cb app_client f fd = on_icmp_readable"
  "cl_signal_cb app_client s = on_signal"
  by (simp_all add: app_client_def)

interpretation app_lens: loop_lens app_client
  by unfold_locales (simp add: set_app_loop_def)

section \<open>Frames\<close>

text \<open>The part of the state that the policy depends on: everything except the receive buffer and the
  memory of the last status text.\<close>

definition core :: "app_t \<Rightarrow> app_t" where
  "core app =
     app\<lparr>app_notify := (app_notify app)\<lparr>last_status := [], last_status_ms := 0\<rparr>,
         app_icmp := (app_icmp app)\<lparr>recv_buf := []\<rparr>\<rparr>"

definition quiet :: "effect \<Rightarrow> bool" where
  "quiet e = (case e of Stderr _ \<Rightarrow> True | Notify_send m _ \<Rightarrow> prefix ''STATUS='' m | _ \<Rightarrow> False)"

lemma quiet_simps [simp]: "quiet (Stderr t)" "quiet (Notify_send m b) \<longleftrightarrow> prefix ''STATUS='' m"
  by (simp_all add: quiet_def)

lemma core_update [simp]:
  "core (app\<lparr>consecutive_fails := n\<rparr>) = (core app)\<lparr>consecutive_fails := n\<rparr>"
  "core (app\<lparr>app_stats := s\<rparr>) = (core app)\<lparr>app_stats := s\<rparr>"
  "core (app\<lparr>app_loop := l\<rparr>) = (core app)\<lparr>app_loop := l\<rparr>"
  "core (app\<lparr>probe_sent_ns := t\<rparr>) = (core app)\<lparr>probe_sent_ns := t\<rparr>"
  "core (app\<lparr>probe_sequence := q\<rparr>) = (core app)\<lparr>probe_sequence := q\<rparr>"
  "core (app\<lparr>watchdog_last_failed := f\<rparr>) = (core app)\<lparr>watchdog_last_failed := f\<rparr>"
  "core (app\<lparr>app_icmp := i\<rparr>) = (core app)\<lparr>app_icmp := i\<lparr>recv_buf := []\<rparr>\<rparr>"
  "core (app\<lparr>app_notify := nt\<rparr>) = (core app)\<lparr>app_notify := nt\<lparr>last_status := [], last_status_ms := 0\<rparr>\<rparr>"
  by (simp_all add: core_def)

lemma core_select [simp]:
  "app_config (core app) = app_config app" "app_log (core app) = app_log app" "app_stats (core app) = app_stats app"
  "app_dest (core app) = app_dest app" "app_identifier (core app) = app_identifier app"
  "app_loop (core app) = app_loop app" "ping_timer (core app) = ping_timer app"
  "reply_timer (core app) = reply_timer app" "watchdog_timer (core app) = watchdog_timer app"
  "probe_sent_ns (core app) = probe_sent_ns app" "probe_sequence (core app) = probe_sequence app"
  "consecutive_fails (core app) = consecutive_fails app" "watchdog_last_failed (core app) = watchdog_last_failed app"
  "nt_opened (app_notify (core app)) = nt_opened (app_notify app)"
  "nt_sockfd (app_notify (core app)) = nt_sockfd (app_notify app)"
  "watchdog_usec (app_notify (core app)) = watchdog_usec (app_notify app)"
  "icmp_sockfd (app_icmp (core app)) = icmp_sockfd (app_icmp app)"
  "icmp_opened (app_icmp (core app)) = icmp_opened (app_icmp app)"
  "icmp_family (app_icmp (core app)) = icmp_family (app_icmp app)"
  "icmp_sequence (app_icmp (core app)) = icmp_sequence (app_icmp app)" "app_dest_len (core app) = app_dest_len app"
  by (simp_all add: core_def)

lemma core_agree:
  assumes "core a = core b"
  shows "app_config a = app_config b" "app_log a = app_log b" "app_loop a = app_loop b" "ping_timer a = ping_timer b"
    "reply_timer a = reply_timer b" "watchdog_timer a = watchdog_timer b" "probe_sequence a = probe_sequence b"
    "consecutive_fails a = consecutive_fails b" "app_stats a = app_stats b" "nt_opened (app_notify a) = nt_opened (app_notify b)"
    "nt_sockfd (app_notify a) = nt_sockfd (app_notify b)" "watchdog_usec (app_notify a) = watchdog_usec (app_notify b)"
    "icmp_sockfd (app_icmp a) = icmp_sockfd (app_icmp b)" "icmp_opened (app_icmp a) = icmp_opened (app_icmp b)"
    "icmp_family (app_icmp a) = icmp_family (app_icmp b)" "app_dest a = app_dest b" "app_dest_len a = app_dest_len b"
  by (metis assms core_select)+

lemma usable_agree: "core a = core b \<Longrightarrow> icmp_usable (app_icmp a) d = icmp_usable (app_icmp b) d"
  unfolding icmp_usable_def using core_agree(13-15) by metis

lemma core_app_stop [simp]: "core (app_stop code app) = app_stop code (core app)"
  by (simp add: app_stop_def)

lemma core_upd_timer [simp]: "core (upd_timer f i app) = upd_timer f i (core app)"
  by (simp add: upd_timer_def Let_def)

lemma core_probe_reset [simp]: "core (probe_reset app) = probe_reset (core app)"
  by (simp add: probe_reset_def Let_def)

lemma app_statusf_frame:
  assumes "app_statusf t app w = (app', w')"
  shows "core app' = core app" and "evolves quiet w w'"
proof -
  obtain ok n v where s: "ls_notify_statusf (app_notify app) t w = (ok, n, v)" by (metis prod_cases3)
  then have e: "app' = app\<lparr>app_notify := n\<rparr>" "w' = v"
    using assms by (simp_all add: app_statusf_def)
  show "core app' = core app"
    using ls_notify_statusf_channel [OF s] by (simp add: e core_def)
  show "evolves quiet w w'"
    unfolding e by (rule ls_notify_statusf_evolves [OF s]) simp_all
qed

lemma app_fail_frame:
  assumes "app_fail what err app w = (app', w')"
  shows "core app' = app_stop LS_EXIT_FAILURE (core app)" and "evolves quiet w w'"
proof -
  obtain b v where s: "app_statusf (''Error: '' @ what @ '': '' @ err) app (ls_error (app_log app) (what @ '': '' @ err) w) = (b, v)"
    by (metis surj_pair)
  then have e: "app' = app_stop LS_EXIT_FAILURE b" "w' = v"
    using assms by (simp_all add: app_fail_def)
  show "core app' = app_stop LS_EXIT_FAILURE (core app)"
    using app_statusf_frame(1) [OF s] by (simp add: e)
  show "evolves quiet w w'"
    unfolding e by (rule evolves_trans [OF _ app_statusf_frame(2) [OF s]]) auto
qed

lemma probe_failed_frame:
  assumes "probe_failed reason app w = (app', w')"
  shows "core app' = (core app)\<lparr>consecutive_fails := consecutive_fails app + 1,
      app_stats := ls_stats_add_fail (app_stats app)\<rparr>" and "evolves quiet w w'"
proof -
  note s = assms [unfolded probe_failed_def Let_def]
  show "core app' = (core app)\<lparr>consecutive_fails := consecutive_fails app + 1,
      app_stats := ls_stats_add_fail (app_stats app)\<rparr>"
    using app_statusf_frame(1) [OF s] by simp
  show "evolves quiet w w'"
    by (rule evolves_trans [OF _ app_statusf_frame(2) [OF s]]) auto
qed

lemma probe_succeeded_frame:
  assumes "probe_succeeded seq lat app w = (app', w')"
  shows "core app' = (core app)\<lparr>consecutive_fails := 0, app_stats := ls_stats_add_ok lat (app_stats app)\<rparr>"
    and "evolves quiet w w'"
proof -
  obtain t u where "app_statusf t (app\<lparr>consecutive_fails := 0, app_stats := ls_stats_add_ok lat (app_stats app)\<rparr>)
      (ls_debug (app_log app) u (w\<lparr>tick := Suc (tick w)\<rparr>)) = (app', w')"
    using assms by (simp add: probe_succeeded_def Let_def case_prod_unfold)
  moreover have v: "evolves quiet w (ls_debug (app_log app) u (w\<lparr>tick := Suc (tick w)\<rparr>))"
    by auto
  ultimately show "core app' = (core app)\<lparr>consecutive_fails := 0, app_stats := ls_stats_add_ok lat (app_stats app)\<rparr>"
    and "evolves quiet w w'"
    using app_statusf_frame evolves_trans [OF v] by fastforce+
qed

lemma log_statistics_evolves [frame]: "evolves is_Stderr w (log_statistics app w)"
  by (auto simp: log_statistics_def Let_def case_prod_unfold)

section \<open>The shutdown action\<close>

definition action_effect :: "effect \<Rightarrow> bool" where
  "action_effect e \<longleftrightarrow> is_Stderr e \<or> is_Kill_child e \<or> is_Reap_child e"

lemma action_effect_simps [simp]:
  "action_effect (Stderr t)" "action_effect (Kill_child p)" "action_effect (Reap_child p)"
  by (simp_all add: action_effect_def)

lemma consume_child_status_evolves: "evolves action_effect v (snd (consume_child_status s lg v))"
  by (auto simp: consume_child_status_def split: wait_status.splits)

lemma observe_loop_evolves: "evolves action_effect w (snd (observe_loop obs pid dl lg w))"
proof (induction obs arbitrary: w)
  case (Wait_status s)
  have "evolves action_effect w (emit (Reap_child pid) w)" by auto
  from evolves_trans [OF this consume_child_status_evolves] show ?case by simp
next
  case (Wait_pending r obs)
  have "evolves action_effect w (snd (ls_now_ms w))" by auto
  with Wait_pending evolves_trans [OF this] show ?case
    by (auto simp: case_prod_unfold Let_def ask_def split: sum.splits)
qed auto

lemma observe_loop_result: "fst (observe_loop obs pid dl lg w) \<noteq> LS_ACTION_SIMULATED"
  by (induction obs arbitrary: w)
    (auto simp: consume_child_status_def Let_def case_prod_unfold split: wait_status.splits)

lemma observe_startup_frame:
  assumes "observe_startup pid lg w = (r, w')"
  shows "r \<noteq> LS_ACTION_SIMULATED" and "evolves action_effect w w'"
proof -
  have "r \<noteq> LS_ACTION_SIMULATED \<and> evolves action_effect w w'"
  proof (cases "fst (ls_now_ms w) = UINT64_MAX")
    case True
    with assms show ?thesis by (auto simp: observe_startup_def Let_def case_prod_unfold)
  next
    case False
    let ?v = "w\<lparr>tick := Suc (Suc (tick w))\<rparr>"
    obtain obs dl where "observe_loop obs pid dl lg ?v = (r, w')"
      using assms False by (auto simp: observe_startup_def ask_def Let_def case_prod_unfold)
    moreover have "evolves action_effect w ?v" by auto
    ultimately show ?thesis
      using observe_loop_result observe_loop_evolves evolves_trans by (metis fst_conv snd_conv)
  qed
  then show "r \<noteq> LS_ACTION_SIMULATED" and "evolves action_effect w w'" by simp_all
qed

lemma prepare_stdio_world: "prepare_stdio n w = (rc, w') \<Longrightarrow> evolves P w w'"
proof (induction n arbitrary: w)
  case (Suc n)
  have "evolves P w (w\<lparr>tick := Suc (tick w)\<rparr>)" by auto
  with Suc evolves_trans [OF this] show ?case
    by (auto simp: ask_def split: option.splits)
qed auto

text \<open>A real shutdown attempt calls \<^verbatim>\<open>posix_spawn\<close> at most once, always for the same command, and
  otherwise only logs and looks after that child; a dry run only logs.\<close>

lemma run_shutdown_action_cases:
  assumes "run_shutdown_action pow lg w = (r, w')"
  obtains (dry) "\<not> pow" "r = LS_ACTION_SIMULATED" "evolves is_Stderr w w'"
  | (unspawned) "pow" "r = LS_ACTION_FAILED" "evolves is_Stderr w w'"
  | (spawned) v where "pow" "r \<noteq> LS_ACTION_SIMULATED" "evolves is_Stderr w v"
      "evolves action_effect (emit (Spawn LS_SYSTEMCTL_PATH SHUTDOWN_ARGV SHUTDOWN_ENVP) v) w'"
proof (cases pow)
  case False
  show ?thesis
    by (rule dry) (use assms False in \<open>auto simp: run_shutdown_action_def Let_def\<close>)
next
  case True
  define w1 where "w1 = ls_warn lg ''Failure threshold reached; triggering system shutdown now'' w"
  define w2 where "w2 = w1\<lparr>tick := Suc (tick w1)\<rparr>"
  obtain rc w3 where p: "prepare_stdio 3 w2 = (rc, w3)" by (metis surj_pair)
  define v where "v = w3\<lparr>tick := Suc (tick w3)\<rparr>"
  have e1: "evolves is_Stderr w w1" "evolves is_Stderr w w2" by (auto simp: w1_def w2_def)
  have e3: "evolves is_Stderr w w3" by (rule evolves_trans [OF e1(2) prepare_stdio_world [OF p]])
  have ev: "evolves is_Stderr w v" using e3 by (auto simp: v_def)
  let ?s = "emit (Spawn LS_SYSTEMCTL_PATH SHUTDOWN_ARGV SHUTDOWN_ENVP) v"
  have body: "spawn_shutdown_command lg w1 = (r, w')"
    using assms True by (simp add: run_shutdown_action_def w1_def)
  show ?thesis
  proof (cases "os_file_actions (world_os w1) (tick w1) = None \<and> rc = None")
    case False
    then have "r = LS_ACTION_FAILED \<and> (\<exists>t. w' = ls_error lg t w2 \<or> w' = ls_error lg t w3)"
      using body p by (auto simp: spawn_shutdown_command_def ask_def Let_def w2_def split: option.splits)
    then show ?thesis by (intro unspawned [OF True]) (use e1 e3 in auto)
  next
    case ok: True
    then have "(\<exists>t. r = LS_ACTION_FAILED \<and> w' = ls_error lg t ?s) \<or> (\<exists>pid. observe_startup pid lg ?s = (r, w'))"
      using body p by (auto simp: spawn_shutdown_command_def ask_def Let_def w2_def v_def SHUTDOWN_ARGV_def split: sum.splits)
    then show ?thesis
    proof (elim disjE exE conjE)
      fix t assume "r = LS_ACTION_FAILED" "w' = ls_error lg t ?s"
      with True ev show ?thesis by (intro spawned) auto
    next
      fix pid assume "observe_startup pid lg ?s = (r, w')"
      with observe_startup_frame True ev show ?thesis by (intro spawned) blast+
    qed
  qed
qed

definition attempt_trace :: "world \<Rightarrow> world \<Rightarrow> bool" where
  "attempt_trace w w' \<longleftrightarrow> evolves is_Stderr w w' \<or>
     (\<exists>v. evolves is_Stderr w v \<and> evolves action_effect (emit (Spawn LS_SYSTEMCTL_PATH SHUTDOWN_ARGV SHUTDOWN_ENVP) v) w')"

lemma check_threshold_cases:
  assumes "check_threshold app w = (app', w')"
  obtains (below) "consecutive_fails app < fail_threshold (app_config app)" "app' = app" "w' = w"
  | (dry) "fail_threshold (app_config app) \<le> consecutive_fails app" "\<not> poweroff (app_config app)"
      "app' = app_stop LS_EXIT_SUCCESS app" "evolves is_Stderr w w'"
  | (attempt) "fail_threshold (app_config app) \<le> consecutive_fails app" "poweroff (app_config app)"
      "app' = app \<or> app' = app_stop LS_EXIT_SUCCESS app" "attempt_trace w w'"
proof (cases "consecutive_fails app < fail_threshold (app_config app)")
  case True
  with assms show ?thesis by (intro below) (simp_all add: check_threshold_def)
next
  case False
  then have le: "fail_threshold (app_config app) \<le> consecutive_fails app" by simp
  obtain r v where a: "run_shutdown_action (poweroff (app_config app)) (app_log app) w = (r, v)"
    by (metis surj_pair)
  then have d: "(r = LS_ACTION_SIMULATED \<longrightarrow> app' = app_stop LS_EXIT_SUCCESS app)" "app' = app \<or> app' = app_stop LS_EXIT_SUCCESS app"
    and w': "\<exists>t. w' = ls_info (app_log app) t v \<or> w' = ls_error (app_log app) t v"
    using assms False by (auto simp: check_threshold_def split: if_splits)
  have ww: "evolves P u w'" if "evolves P u v" "\<And>t. P (Stderr t)" for P u
    using w' that by auto
  from a show ?thesis
  proof (cases rule: run_shutdown_action_cases)
    case c: dry
    with le d ww show ?thesis by (intro dry) auto
  next
    case c: unspawned
    with ww have "attempt_trace w w'" by (auto simp: attempt_trace_def)
    with c le d show ?thesis by (intro attempt)
  next
    case c: (spawned u)
    with ww have "attempt_trace w w'" unfolding attempt_trace_def by (meson action_effect_simps(1))
    with c le d show ?thesis by (intro attempt)
  qed
qed

section \<open>Receiving\<close>

definition drain_effect :: "effect \<Rightarrow> bool" where
  "drain_effect e \<longleftrightarrow> quiet e \<or> e = Recv_packet"

lemma drain_effect_simps [simp]: "drain_effect (Stderr t)" "drain_effect Recv_packet"
  by (simp_all add: drain_effect_def)

lemma evolves_quiet_drain: "evolves quiet w w' \<Longrightarrow> evolves drain_effect w w'"
  by (erule evolves_weaken) (simp add: drain_effect_def)

lemma ls_icmp_recv_core:
  assumes "ls_icmp_recv icmp dest i s w = (st, err, icmp', w')"
  shows "icmp'\<lparr>recv_buf := []\<rparr> = icmp\<lparr>recv_buf := []\<rparr>"
  using assms by (cases rule: ls_icmp_recv_cases) simp_all

lemma probe_latency_nonneg: "0 \<le> probe_latency now sent"
  by (simp add: probe_latency_def LS_NS_PER_MS_F_def LS_NS_PER_MS_def ddiv_nonneg u64_to_double_pos)

text \<open>The drain either leaves the policy state alone, or stops the loop on a socket error, or accepts
  the reply of the outstanding probe; one pass of its loop may also go on to the next packet.\<close>

lemma drain_loop_step:
  assumes "drain_loop (Suc n) app w = (m, app', w')"
  obtains (none) "\<not> m" "core app' = core app" "evolves drain_effect w w'"
  | (fail) "\<not> m" "core app' = app_stop LS_EXIT_FAILURE (probe_reset (core app))" "evolves drain_effect w w'"
  | (hit) lat where "m" "ls_timer_armed (timers (app_loop app) ! reply_timer app)" "0 \<le> lat"
      "core app' = (probe_reset (core app))\<lparr>consecutive_fails := 0, app_stats := ls_stats_add_ok lat (app_stats app)\<rparr>"
      "evolves drain_effect w w'"
  | (more) b v where "core b = core app" "evolves drain_effect w v" "drain_loop n b v = (m, app', w')"
proof -
  obtain st err ic v where r: "ls_icmp_recv (app_icmp app) (app_dest app) (app_identifier app) (probe_sequence app) w
      = (st, err, ic, v)" by (metis prod_cases4)
  let ?b = "app\<lparr>app_icmp := ic\<rparr>"
  have cb: "core ?b = core app"
    using ls_icmp_recv_core [OF r] by (simp add: core_def)
  have ev: "evolves drain_effect w v"
    by (rule ls_icmp_recv_evolves [OF r]) auto
  note body = assms [unfolded drain_loop.simps r prod.case Let_def]
  consider (no) "st = LS_ICMP_RECV_NO_MORE" | (er) "st = LS_ICMP_RECV_ERROR"
    | (ok) "st = LS_ICMP_RECV_MATCHED" "ls_timer_armed (timers (app_loop app) ! reply_timer app)"
    | (on) "drain_loop n ?b v = (m, app', w')"
    using body by (auto split: if_splits)
  then show ?thesis
  proof cases
    case no
    with body cb ev show ?thesis by (intro none) auto
  next
    case er
    with body have f: "\<not> m" "app_fail ''ICMP receive failed'' err (probe_reset ?b) v = (app', w')"
      by (auto split: prod.splits)
    have "evolves drain_effect w w'"
      by (rule evolves_trans [OF ev evolves_quiet_drain [OF app_fail_frame(2) [OF f(2)]]])
    with f(1) app_fail_frame(1) [OF f(2)] cb show ?thesis by (intro fail) simp_all
  next
    case ok
    obtain now v2 where n: "ls_now_ns v = (now, v2)" by (metis surj_pair)
    define lat where "lat = probe_latency now (probe_sent_ns app)"
    have s: "m" "probe_succeeded (probe_sequence app) lat (probe_reset ?b) v2 = (app', w')"
      using ok body n by (auto simp: lat_def split: prod.splits)
    have "evolves drain_effect w v2"
      using ev ls_now_ns_D [OF n] by auto
    then have "evolves drain_effect w w'"
      by (rule evolves_trans [OF _ evolves_quiet_drain [OF probe_succeeded_frame(2) [OF s(2)]]])
    with probe_succeeded_frame(1) [OF s(2)] cb ok(2) s(1) show ?thesis
      by (intro hit [of lat]) (simp_all add: lat_def probe_latency_nonneg probe_reset_def Let_def upd_timer_def)
  qed (rule more [OF cb ev])
qed

lemma drain_loop_cases:
  assumes "drain_loop n app w = (m, app', w')"
  obtains (none) "\<not> m" "core app' = core app" "evolves drain_effect w w'"
  | (fail) "\<not> m" "core app' = app_stop LS_EXIT_FAILURE (probe_reset (core app))" "evolves drain_effect w w'"
  | (hit) lat where "m" "ls_timer_armed (timers (app_loop app) ! reply_timer app)" "0 \<le> lat"
      "core app' = (probe_reset (core app))\<lparr>consecutive_fails := 0, app_stats := ls_stats_add_ok lat (app_stats app)\<rparr>"
      "evolves drain_effect w w'"
  using assms
proof (induction n arbitrary: app w thesis)
  case (Suc n)
  from Suc.prems(4) show ?case
  proof (cases rule: drain_loop_step)
    case (more b v)
    show ?thesis
    proof (rule Suc.IH [OF _ _ _ more(3)])
    qed (use Suc.prems(1-3) more(1) core_agree [OF more(1)] evolves_trans [OF more(2)] in auto)
  qed (use Suc.prems(1-3) in blast)+
qed auto

section \<open>Callbacks by cases\<close>

lemma upd_timer_select [simp]:
  "app_config (upd_timer f i app) = app_config app" "app_log (upd_timer f i app) = app_log app"
  "app_stats (upd_timer f i app) = app_stats app" "app_icmp (upd_timer f i app) = app_icmp app"
  "app_notify (upd_timer f i app) = app_notify app" "app_dest (upd_timer f i app) = app_dest app"
  "app_dest_len (upd_timer f i app) = app_dest_len app"
  "app_identifier (upd_timer f i app) = app_identifier app"
  "ping_timer (upd_timer f i app) = ping_timer app" "reply_timer (upd_timer f i app) = reply_timer app"
  "watchdog_timer (upd_timer f i app) = watchdog_timer app" "probe_sent_ns (upd_timer f i app) = probe_sent_ns app"
  "probe_sequence (upd_timer f i app) = probe_sequence app" "consecutive_fails (upd_timer f i app) = consecutive_fails app"
  "watchdog_last_failed (upd_timer f i app) = watchdog_last_failed app"
  "timers (app_loop (upd_timer f i app)) = (timers (app_loop app))[i := f (timers (app_loop app) ! i)]"
  "now_ms (app_loop (upd_timer f i app)) = now_ms (app_loop app)"
  "stopping (app_loop (upd_timer f i app)) = stopping (app_loop app)"
  "lp_exit_code (app_loop (upd_timer f i app)) = lp_exit_code (app_loop app)"
  "signal_fd (app_loop (upd_timer f i app)) = signal_fd (app_loop app)"
  "previous_mask_valid (app_loop (upd_timer f i app)) = previous_mask_valid (app_loop app)"
  "previous_mask (app_loop (upd_timer f i app)) = previous_mask (app_loop app)"
  "fds (app_loop (upd_timer f i app)) = fds (app_loop app)"
  "signal_cb (app_loop (upd_timer f i app)) = signal_cb (app_loop app)"
  "lp_log (app_loop (upd_timer f i app)) = lp_log (app_loop app)"
  by (simp_all add: upd_timer_def Let_def)

lemma app_stop_select [simp]:
  "app_config (app_stop code app) = app_config app" "app_log (app_stop code app) = app_log app"
  "app_stats (app_stop code app) = app_stats app" "app_icmp (app_stop code app) = app_icmp app"
  "app_notify (app_stop code app) = app_notify app" "app_dest (app_stop code app) = app_dest app"
  "app_dest_len (app_stop code app) = app_dest_len app"
  "app_identifier (app_stop code app) = app_identifier app"
  "ping_timer (app_stop code app) = ping_timer app" "reply_timer (app_stop code app) = reply_timer app"
  "watchdog_timer (app_stop code app) = watchdog_timer app" "probe_sent_ns (app_stop code app) = probe_sent_ns app"
  "probe_sequence (app_stop code app) = probe_sequence app" "consecutive_fails (app_stop code app) = consecutive_fails app"
  "watchdog_last_failed (app_stop code app) = watchdog_last_failed app"
  "timers (app_loop (app_stop code app)) = timers (app_loop app)"
  "now_ms (app_loop (app_stop code app)) = now_ms (app_loop app)"
  "stopping (app_loop (app_stop code app)) = True"
  "lp_exit_code (app_loop (app_stop code app)) = code"
  "signal_fd (app_loop (app_stop code app)) = signal_fd (app_loop app)"
  "previous_mask_valid (app_loop (app_stop code app)) = previous_mask_valid (app_loop app)"
  "previous_mask (app_loop (app_stop code app)) = previous_mask (app_loop app)"
  "fds (app_loop (app_stop code app)) = fds (app_loop app)"
  "signal_cb (app_loop (app_stop code app)) = signal_cb (app_loop app)"
  "lp_log (app_loop (app_stop code app)) = lp_log (app_loop app)"
  by (simp_all add: app_stop_def ls_loop_stop_def)

abbreviation reply_armed :: "app_t \<Rightarrow> bool" where
  "reply_armed app \<equiv> ls_timer_armed (timers (app_loop app) ! reply_timer app)"

lemma core_loop: "core app' = X \<Longrightarrow> app_loop app' = app_loop X"
  by (metis core_select(6))

lemma on_reply_timer_cases:
  assumes "on_reply_timer app w = (app', w')" and run: "\<not> stopping (app_loop app)"
  obtains (fatal) "core app' = app_stop LS_EXIT_FAILURE (probe_reset (core app))" "evolves drain_effect w w'"
  | (hit) lat where "reply_armed app" "0 \<le> lat" "evolves drain_effect w w'"
      "core app' = (probe_reset (core app))\<lparr>consecutive_fails := 0, app_stats := ls_stats_add_ok lat (app_stats app)\<rparr>"
  | (timeout) b v where "evolves drain_effect w v" "check_threshold b v = (app', w')"
      "core b = (probe_reset (core app))\<lparr>consecutive_fails := consecutive_fails app + 1,
         app_stats := ls_stats_add_fail (app_stats app)\<rparr>"
proof -
  obtain m a1 w1 where d: "drain_loop LS_MAX_REPLY_DRAIN_PER_WAKEUP app w = (m, a1, w1)" by (metis prod_cases3)
  note body = assms(1) [unfolded on_reply_timer_def drain_and_match_reply_def d prod.case Let_def ls_loop_stopping_def]
  from d show ?thesis
  proof (cases rule: drain_loop_cases)
    case none
    then have "app_loop a1 = app_loop app" by (metis core_select(6))
    moreover obtain b v where p: "probe_failed (c_snprintf 64 (''no reply within '' @
        ls_format_duration (timeout_ms (app_config (probe_reset a1))) 32)) (probe_reset a1) w1 = (b, v)"
      by (metis surj_pair)
    ultimately have ct: "check_threshold b v = (app', w')"
      using body none(1) run by simp
    have r: "core (probe_reset a1) = probe_reset (core app)" using none(2) by simp
    have "consecutive_fails (probe_reset a1) = consecutive_fails app" "app_stats (probe_reset a1) = app_stats app"
      using arg_cong [OF r, of consecutive_fails] arg_cong [OF r, of app_stats] by (simp_all add: probe_reset_def Let_def)
    then have cb: "core b = (probe_reset (core app))\<lparr>consecutive_fails := consecutive_fails app + 1,
        app_stats := ls_stats_add_fail (app_stats app)\<rparr>"
      using probe_failed_frame(1) [OF p] r by simp
    show ?thesis
      by (rule timeout [OF evolves_trans [OF none(3) evolves_quiet_drain [OF probe_failed_frame(2) [OF p]]] ct cb])
  next
    case fail
    have "stopping (app_loop a1)" by (simp only: core_loop [OF fail(2)] app_stop_select)
    with body fail show ?thesis by (intro fatal) auto
  next
    case (hit lat)
    with body show ?thesis by (intro that(2) [of lat]) auto
  qed
qed

text \<open>What a probe may do to the outside: log, report, and send one packet to the target.\<close>

definition send_effect :: "sockaddr_storage \<times> nat \<Rightarrow> effect \<Rightarrow> bool" where
  "send_effect tgt e \<longleftrightarrow> quiet e \<or> (\<exists>pkt r. e = Echo_send pkt (fst tgt) (snd tgt) r \<and> length pkt = LS_PACKET_SIZE)"

lemma on_ping_timer_cases:
  assumes "on_ping_timer app w = (app', w')" and "ping_timer app \<noteq> reply_timer app"
  defines "a1 \<equiv> upd_timer (ls_timer_step (interval_ms (app_config app)) (now_ms (app_loop app))) (ping_timer app) app"
  obtains (busy) "reply_armed app" "app' = a1" "w' = w"
  | (fatal) ic where "\<not> reply_armed app" "core app' = app_stop LS_EXIT_FAILURE (core (a1\<lparr>app_icmp := ic\<rparr>))"
      "icmp_sockfd ic = icmp_sockfd (app_icmp app)" "icmp_opened ic = icmp_opened (app_icmp app)"
      "icmp_family ic = icmp_family (app_icmp app)" "evolves (send_effect (app_dest app, app_dest_len app)) w w'"
      "icmp_usable (app_icmp app) (app_dest app) \<Longrightarrow>
         send_status LS_PACKET_SIZE (settle (os_sendto (world_os w) (tick w))) = LS_ICMP_SEND_ERROR"
  | (refused) ic pkt e v b where "\<not> reply_armed app" "send_error_is_network_condition e"
      "icmp_sockfd ic = icmp_sockfd (app_icmp app)" "icmp_opened ic = icmp_opened (app_icmp app)"
      "icmp_family ic = icmp_family (app_icmp app)" "length pkt = LS_PACKET_SIZE"
      "evolves quiet (emit (Echo_send pkt (app_dest app) (app_dest_len app) (Inl e)) (w\<lparr>tick := Suc (tick w)\<rparr>)) v"
      "check_threshold b v = (app', w')"
      "core b = (core (a1\<lparr>app_icmp := ic\<rparr>))\<lparr>consecutive_fails := consecutive_fails app + 1,
         app_stats := ls_stats_add_fail (app_stats app)\<rparr>"
  | (sent) ic pkt t where "\<not> reply_armed app"
      "icmp_sockfd ic = icmp_sockfd (app_icmp app)" "icmp_opened ic = icmp_opened (app_icmp app)"
      "icmp_family ic = icmp_family (app_icmp app)" "length pkt = LS_PACKET_SIZE"
      "icmp_sequence ic = next_sequence (icmp_sequence (app_icmp app))"
      "w' = (emit (Echo_send pkt (app_dest app) (app_dest_len app) (Inr LS_PACKET_SIZE)) (w\<lparr>tick := Suc (tick w)\<rparr>))\<lparr>tick := Suc (Suc (tick w))\<rparr>"
      "app' = upd_timer (ls_timer_arm_after (now_ms (app_loop app)) (timeout_ms (app_config app))) (reply_timer app)
         (a1\<lparr>app_icmp := ic, probe_sent_ns := t, probe_sequence := icmp_sequence ic\<rparr>)"
      "settle (os_sendto (world_os w) (tick w)) = Inr LS_PACKET_SIZE"
proof -
  have ra: "ls_timer_armed (timers (app_loop a1) ! reply_timer a1) \<longleftrightarrow> reply_armed app"
    using assms(2) by (simp add: a1_def)
  have sel: "app_icmp a1 = app_icmp app" "app_dest a1 = app_dest app" "app_identifier a1 = app_identifier app"
    "app_dest_len a1 = app_dest_len app"
    by (simp_all add: a1_def)
  obtain st err ic w1 where s: "ls_icmp_send_echo (app_icmp app) (app_dest app) (app_dest_len app) (app_identifier app) LS_PACKET_SIZE w
      = (st, err, ic, w1)" by (metis prod_cases4)
  note body = assms(1) [unfolded on_ping_timer_def ls_loop_now_def Let_def a1_def [symmetric] ra sel s prod.case]
  note ic = ls_icmp_send_echo_keeps [OF s] and ans = ls_icmp_send_echo_answer [OF s]
  show ?thesis
  proof (cases "reply_armed app")
    case True
    with body show ?thesis by (intro busy) auto
  next
    case idle: False
    show ?thesis
    proof (cases st)
      case LS_ICMP_SEND_ERROR
      with body idle have f: "app_fail ''Failed to send ICMP echo'' err (a1\<lparr>app_icmp := ic\<rparr>) w1 = (app', w')"
        by simp
      let ?E = "send_effect (app_dest app, app_dest_len app)"
      have "evolves ?E w w1"
        by (rule ls_icmp_send_echo_evolves [OF s]) (auto simp: send_effect_def)
      then have "evolves ?E w w'"
        by (rule evolves_trans) (rule evolves_weaken [OF app_fail_frame(2) [OF f]], simp add: send_effect_def)
      with app_fail_frame(1) [OF f] idle ic ans LS_ICMP_SEND_ERROR show ?thesis
        by (intro fatal [of ic]) (auto simp: LS_PACKET_SIZE_def)
    next
      case LS_ICMP_SEND_UNREACHABLE
      obtain b v where p: "probe_failed err (a1\<lparr>app_icmp := ic\<rparr>) w1 = (b, v)" by (metis surj_pair)
      with body idle LS_ICMP_SEND_UNREACHABLE have ct: "check_threshold b v = (app', w')" by simp
      from ans LS_ICMP_SEND_UNREACHABLE probe_failed_frame [OF p] idle ic ct refused show ?thesis
        by (auto simp: a1_def)
    next
      case LS_ICMP_SEND_OK
      obtain t w2 where n: "ls_now_ns w1 = (t, w2)" by (metis surj_pair)
      from ans LS_ICMP_SEND_OK ls_now_ns_D [OF n] body idle n ic sent [of ic _ t] show ?thesis
        by (auto simp: a1_def)
    qed
  qed
qed

lemma on_watchdog_timer_frame:
  assumes "on_watchdog_timer app w = (app', w')"
  shows "\<exists>f. app' = (upd_timer (ls_timer_step (ls_notify_watchdog_interval_ms (app_notify app)) (now_ms (app_loop app)))
      (watchdog_timer app) app)\<lparr>watchdog_last_failed := f\<rparr>"
    and "evolves (\<lambda>e. is_Stderr e \<or> (\<exists>b. e = Notify_send ''WATCHDOG=1'' b)) w w'"
proof -
  obtain sent w1 where s: "ls_notify_watchdog (app_notify app) w = (sent, w1)" by (metis surj_pair)
  note body = assms [unfolded on_watchdog_timer_def s prod.case Let_def ls_loop_now_def]
  show "\<exists>f. app' = (upd_timer (ls_timer_step (ls_notify_watchdog_interval_ms (app_notify app)) (now_ms (app_loop app)))
      (watchdog_timer app) app)\<lparr>watchdog_last_failed := f\<rparr>"
    using body by auto
  have "evolves (\<lambda>e. is_Stderr e \<or> (\<exists>b. e = Notify_send ''WATCHDOG=1'' b)) w w1"
    using s by (auto simp: ls_notify_watchdog_def notify_send_def ask_def Let_def split: if_splits)
  with body show "evolves (\<lambda>e. is_Stderr e \<or> (\<exists>b. e = Notify_send ''WATCHDOG=1'' b)) w w'"
    by (auto split: if_splits)
qed

end
