(* ===== verification/LS_Monitor.thy ===== *)
theory LS_Monitor
  imports LS_App
begin

text \<open>
  The abstract specification of the daemon: a monitor that remembers the outcomes of its probes, has
  at most one probe outstanding, and acts on the number of failures at the end of its history. The
  application refines it: every state in which the event loop tests its condition is related to a
  reachable state of the monitor.
\<close>

section \<open>The abstract monitor\<close>

record monitor =
  hist :: "double option list"
  outstanding :: bool
  attempts :: nat
  halted :: "int option"

definition mon_init :: monitor where
  "mon_init = \<lparr>hist = [], outstanding = False, attempts = 0, halted = None\<rparr>"

text \<open>The number of failures since the last success. An outcome is \<open>Some\<close> latency or \<open>None\<close> for a
  failed probe.\<close>

definition trailing_fails :: "double option list \<Rightarrow> nat" where
  "trailing_fails h = length (takeWhile (\<lambda>x. x = None) (rev h))"

text \<open>One event of the monitor, for threshold \<open>thr\<close> and power-off permission \<open>pow\<close>.\<close>

inductive mon_step :: "int \<Rightarrow> bool \<Rightarrow> monitor \<Rightarrow> monitor \<Rightarrow> bool" for thr pow where
  send: "halted m = None \<Longrightarrow> \<not> outstanding m \<Longrightarrow> mon_step thr pow m (m\<lparr>outstanding := True\<rparr>)"
| reply: "halted m = None \<Longrightarrow> outstanding m \<Longrightarrow> 0 \<le> lat \<Longrightarrow>
    mon_step thr pow m (m\<lparr>outstanding := False, hist := hist m @ [Some lat]\<rparr>)"
| fail_below: "halted m = None \<Longrightarrow> int (trailing_fails (hist m @ [None])) < thr \<Longrightarrow>
    mon_step thr pow m (m\<lparr>outstanding := False, hist := hist m @ [None]\<rparr>)"
| fail_dry: "halted m = None \<Longrightarrow> thr \<le> int (trailing_fails (hist m @ [None])) \<Longrightarrow> \<not> pow \<Longrightarrow>
    mon_step thr pow m (m\<lparr>outstanding := False, hist := hist m @ [None], halted := Some LS_EXIT_SUCCESS\<rparr>)"
| fail_act: "halted m = None \<Longrightarrow> thr \<le> int (trailing_fails (hist m @ [None])) \<Longrightarrow> pow \<Longrightarrow>
    h = None \<or> h = Some LS_EXIT_SUCCESS \<Longrightarrow>
    mon_step thr pow m (m\<lparr>outstanding := False, hist := hist m @ [None], attempts := Suc (attempts m), halted := h\<rparr>)"
| stop: "halted m = None \<Longrightarrow> mon_step thr pow m (m\<lparr>halted := Some LS_EXIT_SUCCESS\<rparr>)"
| fatal: "halted m = None \<Longrightarrow> (out \<longrightarrow> outstanding m) \<Longrightarrow>
    mon_step thr pow m (m\<lparr>outstanding := out, halted := Some LS_EXIT_FAILURE\<rparr>)"

inductive mon_reach :: "int \<Rightarrow> bool \<Rightarrow> monitor \<Rightarrow> bool" for thr pow where
  init: "mon_reach thr pow mon_init"
| step: "mon_reach thr pow m \<Longrightarrow> mon_step thr pow m m' \<Longrightarrow> mon_reach thr pow m'"

inductive_cases mon_stepE: "mon_step thr pow m m'"

lemma trailing_fails_simps [simp]:
  "trailing_fails [] = 0" "trailing_fails (h @ [Some lat]) = 0" "trailing_fails (h @ [None]) = Suc (trailing_fails h)"
  by (simp_all add: trailing_fails_def)

lemma trailing_fails_le: "trailing_fails h \<le> length h"
  unfolding trailing_fails_def by (metis length_rev length_takeWhile_le)

text \<open>Indices of the history at which the threshold is reached.\<close>

definition threshold_hits :: "int \<Rightarrow> double option list \<Rightarrow> nat" where
  "threshold_hits thr h = length (filter (\<lambda>n. thr \<le> int (trailing_fails (take n h)) \<and> h ! (n - 1) = None) [1..<Suc (length h)])"

lemma threshold_hits_snoc:
  "threshold_hits thr (h @ [x]) = threshold_hits thr h +
     (if x = None \<and> thr \<le> int (trailing_fails (h @ [None])) then 1 else 0)"
proof -
  have "filter (\<lambda>n. thr \<le> int (trailing_fails (take n (h @ [x]))) \<and> (h @ [x]) ! (n - 1) = None) [1..<Suc (length h)] =
      filter (\<lambda>n. thr \<le> int (trailing_fails (take n h)) \<and> h ! (n - 1) = None) [1..<Suc (length h)]"
    by (rule filter_cong) (auto simp: nth_append)
  then show ?thesis
    by (cases x) (simp_all add: threshold_hits_def)
qed

text \<open>Invariant of the reachable monitor states.\<close>

lemma mon_reach_invariant:
  assumes "mon_reach thr pow m"
  shows "(attempts m \<le> threshold_hits thr (hist m)) \<and> (0 < attempts m \<longrightarrow> pow) \<and>
    (halted m \<in> {None, Some LS_EXIT_SUCCESS, Some LS_EXIT_FAILURE}) \<and>
    (\<not> pow \<and> halted m = None \<longrightarrow> threshold_hits thr (hist m) = 0)"
  using assms
proof induction
  case init
  then show ?case by (simp add: mon_init_def threshold_hits_def)
next
  case (step m m')
  from step(2) step(3) show ?case
    by (cases rule: mon_step.cases) (auto simp: threshold_hits_snoc)
qed

section \<open>The refinement relation\<close>

definition spawns :: "world \<Rightarrow> nat" where "spawns w = length (filter is_Spawn (trace w))"
definition echoes :: "world \<Rightarrow> nat" where "echoes w = length (filter is_Echo_send (trace w))"

text \<open>The kernel's monotonic clock counts from boot: a reading is far below the sentinel.\<close>

definition clock_sane :: "os \<Rightarrow> bool" where
  "clock_sane sys \<longleftrightarrow> (\<forall>n ts. os_clock_coarse sys n = Some ts \<longrightarrow> unat (timespec_ms ts) < 9223372036854775808)"

definition app_wired :: "ls_config_t \<Rightarrow> app_t \<Rightarrow> bool" where
  "app_wired cfg app \<longleftrightarrow>
     app_config app = cfg \<and> watchdog_timer app = 0 \<and> reply_timer app = 1 \<and> ping_timer app = 2 \<and>
     map timer_cb (timers (app_loop app)) = [On_watchdog_timer, On_reply_timer, On_ping_timer] \<and>
     unat (now_ms (app_loop app)) < 9223372036854775808 \<and> unat (timeout_ms cfg) \<le> 2147483647"

definition mon_rel :: "ls_stats_t \<Rightarrow> app_t \<Rightarrow> world \<Rightarrow> monitor \<Rightarrow> bool" where
  "mon_rel s0 app w m \<longleftrightarrow>
     consecutive_fails app = int (trailing_fails (hist m)) \<and>
     app_stats app = fold stats_apply (hist m) s0 \<and>
     outstanding m = reply_armed app \<and>
     probe_sequence app = (if outstanding m then icmp_sequence (app_icmp app) else 0) \<and>
     (outstanding m \<longrightarrow> icmp_sequence (app_icmp app) \<noteq> 0) \<and>
     halted m = (if stopping (app_loop app) then Some (lp_exit_code (app_loop app)) else None) \<and>
     spawns w \<le> attempts m \<and>
     length (hist m) + (if outstanding m then 1 else 0) \<le> echoes w \<and>
     (halted m = None \<longrightarrow> echoes w = length (hist m) + (if outstanding m then 1 else 0))"

definition mon_inv :: "ls_config_t \<Rightarrow> ls_stats_t \<Rightarrow> app_t \<Rightarrow> world \<Rightarrow> bool" where
  "mon_inv cfg s0 app w \<longleftrightarrow>
     clock_sane (world_os w) \<and> app_wired cfg app \<and>
     (\<exists>m. mon_reach (fail_threshold cfg) (poweroff cfg) m \<and> mon_rel s0 app w m)"

lemma mon_rel_core [simp]: "mon_rel s0 (core app) w m = mon_rel s0 app w m"
  by (simp add: mon_rel_def)

lemma mon_rel_cong: "core app' = core app \<Longrightarrow> mon_rel s0 app' w m = mon_rel s0 app w m"
  by (metis mon_rel_core)

lemma app_wired_stop [simp]: "app_wired cfg (app_stop code app) = app_wired cfg app"
  by (simp add: app_wired_def)

lemma app_wired_core [simp]: "app_wired cfg (core app) = app_wired cfg app"
  by (simp add: app_wired_def)

lemma app_wired_cong: "core app' = core app \<Longrightarrow> app_wired cfg app' = app_wired cfg app"
  by (metis app_wired_core)

lemma map_timer_cb_upd:
  assumes "\<And>t. timer_cb (f t) = timer_cb t"
  shows "map timer_cb (ts[i := f (ts ! i)]) = map timer_cb ts"
  by (cases "i < length ts") (auto intro: nth_equalityI simp: nth_list_update assms)

lemma app_wired_upd [simp]:
  assumes "app_wired cfg app" "\<And>t. timer_cb (f t) = timer_cb t"
  shows "app_wired cfg (upd_timer f i app)"
  using assms(1) unfolding app_wired_def by (simp add: map_timer_cb_upd [OF assms(2)])

lemma app_wired_fields [simp]:
  "app_wired cfg (app\<lparr>consecutive_fails := n\<rparr>) = app_wired cfg app"
  "app_wired cfg (app\<lparr>app_stats := s\<rparr>) = app_wired cfg app"
  "app_wired cfg (app\<lparr>app_icmp := i\<rparr>) = app_wired cfg app"
  "app_wired cfg (app\<lparr>probe_sent_ns := t\<rparr>) = app_wired cfg app"
  "app_wired cfg (app\<lparr>probe_sequence := q\<rparr>) = app_wired cfg app"
  "app_wired cfg (app\<lparr>watchdog_last_failed := b\<rparr>) = app_wired cfg app"
  by (simp_all add: app_wired_def)

lemma timer_cb_ops [simp]:
  "timer_cb (ls_timer_disarm t) = timer_cb t" "timer_cb (ls_timer_step d n t) = timer_cb t"
  "timer_cb (ls_timer_arm_after b d t) = timer_cb t"
  by (simp_all add: ls_timer_disarm_def ls_timer_step_def ls_timer_arm_after_def Let_def)

lemma app_wired_reset [simp]: "app_wired cfg app \<Longrightarrow> app_wired cfg (probe_reset app)"
  by (simp add: probe_reset_def Let_def)

lemma wired_timers:
  assumes "app_wired cfg app"
  obtains a b c where "timers (app_loop app) = [a, b, c]" "timer_cb a = On_watchdog_timer"
    "timer_cb b = On_reply_timer" "timer_cb c = On_ping_timer"
  using assms unfolding app_wired_def by (auto simp: map_eq_Cons_conv)

lemma not_armed_disarm [simp]: "\<not> ls_timer_armed (ls_timer_disarm t)"
  by (simp add: ls_timer_armed_def ls_timer_disarm_def)

lemma evolves_counts:
  assumes "evolves P w w'" "\<And>e. P e \<Longrightarrow> \<not> is_Spawn e" "\<And>e. P e \<Longrightarrow> \<not> is_Echo_send e"
  shows "spawns w' = spawns w" "echoes w' = echoes w" "world_os w' = world_os w"
  using assms evolves_filter [OF assms(1), of is_Spawn] evolves_filter [OF assms(1), of is_Echo_send] evolves_os
  by (auto simp: spawns_def echoes_def)

lemma effect_classes:
  "drain_effect e \<Longrightarrow> \<not> is_Spawn e \<and> \<not> is_Echo_send e" "quiet e \<Longrightarrow> \<not> is_Spawn e \<and> \<not> is_Echo_send e"
  "is_Stderr e \<Longrightarrow> \<not> is_Spawn e \<and> \<not> is_Echo_send e" "action_effect e \<Longrightarrow> \<not> is_Spawn e \<and> \<not> is_Echo_send e"
  by (cases e; auto simp: drain_effect_def quiet_def action_effect_def)+

lemma drain_counts:
  "evolves drain_effect w w' \<Longrightarrow> spawns w' = spawns w \<and> echoes w' = echoes w \<and> world_os w' = world_os w"
  using evolves_counts [of drain_effect] effect_classes(1) by blast

lemma quiet_counts:
  "evolves quiet w w' \<Longrightarrow> spawns w' = spawns w \<and> echoes w' = echoes w \<and> world_os w' = world_os w"
  using evolves_counts [of quiet] effect_classes(2) by blast

lemma stderr_counts:
  "evolves is_Stderr w w' \<Longrightarrow> spawns w' = spawns w \<and> echoes w' = echoes w \<and> world_os w' = world_os w"
  using evolves_counts [of is_Stderr] effect_classes(3) by blast

lemma attempt_counts:
  assumes "attempt_trace w w'"
  shows "spawns w' \<le> Suc (spawns w)" "echoes w' = echoes w" "world_os w' = world_os w"
proof -
  have act: "evolves action_effect u v \<Longrightarrow> spawns v = spawns u \<and> echoes v = echoes u \<and> world_os v = world_os u" for u v
    using evolves_counts [of action_effect] effect_classes(4) by blast
  from assms consider "evolves is_Stderr w w'"
    | v where "evolves is_Stderr w v" "evolves action_effect (emit (Spawn LS_SYSTEMCTL_PATH SHUTDOWN_ARGV SHUTDOWN_ENVP) v) w'"
    by (auto simp: attempt_trace_def)
  then have "spawns w' \<le> Suc (spawns w) \<and> echoes w' = echoes w \<and> world_os w' = world_os w"
  proof cases
    case 1
    then show ?thesis using stderr_counts by fastforce
  next
    case 2
    with stderr_counts [OF 2(1)] act [OF 2(2)] show ?thesis
      by (simp add: spawns_def echoes_def)
  qed
  then show "spawns w' \<le> Suc (spawns w)" "echoes w' = echoes w" "world_os w' = world_os w" by simp_all
qed

section \<open>Each callback is a step of the monitor\<close>

lemma mon_rel_world:
  "spawns w' = spawns w \<and> echoes w' = echoes w \<and> world_os w' = world_os w \<Longrightarrow> mon_rel s0 app w' m = mon_rel s0 app w m"
  by (simp add: mon_rel_def)

lemma mon_rel_stop:
  "mon_rel s0 app w m \<Longrightarrow> halted m = None \<Longrightarrow> mon_rel s0 (app_stop code app) w (m\<lparr>halted := Some code\<rparr>)"
  by (auto simp: mon_rel_def)

lemma mon_rel_running: "mon_rel s0 app w m \<Longrightarrow> \<not> stopping (app_loop app) \<Longrightarrow> halted m = None"
  by (simp add: mon_rel_def)

lemma check_threshold_step:
  assumes "halted m = None" and rel: "mon_rel s0 b v (m\<lparr>outstanding := False, hist := hist m @ [None]\<rparr>)"
    and cfg: "app_config b = cfg" and "check_threshold b v = (app', w')"
  shows "\<exists>m'. mon_step (fail_threshold cfg) (poweroff cfg) m m' \<and> mon_rel s0 app' w' m'"
    and "world_os w' = world_os v" and "app' = b \<or> app' = app_stop LS_EXIT_SUCCESS b"
proof -
  let ?m = "m\<lparr>outstanding := False, hist := hist m @ [None]\<rparr>"
  have fails: "consecutive_fails b = int (trailing_fails (hist m @ [None]))"
    using rel by (simp add: mon_rel_def)
  have "(\<exists>m'. mon_step (fail_threshold cfg) (poweroff cfg) m m' \<and> mon_rel s0 app' w' m') \<and> world_os w' = world_os v \<and>
      (app' = b \<or> app' = app_stop LS_EXIT_SUCCESS b)"
    using assms(4)
  proof (cases rule: check_threshold_cases)
    case below
    then have "mon_step (fail_threshold cfg) (poweroff cfg) m ?m"
      using assms(1) fails cfg by (intro mon_step.fail_below) simp_all
    with below rel show ?thesis by blast
  next
    case dry
    let ?m' = "m\<lparr>outstanding := False, hist := hist m @ [None], halted := Some LS_EXIT_SUCCESS\<rparr>"
    have "mon_step (fail_threshold cfg) (poweroff cfg) m ?m'"
      using dry assms(1) fails cfg by (intro mon_step.fail_dry) simp_all
    moreover have "mon_rel s0 app' w' ?m'"
      using mon_rel_stop [OF rel, of LS_EXIT_SUCCESS] assms(1) dry mon_rel_world [OF stderr_counts [OF dry(4)]] by simp
    ultimately show ?thesis
      using dry(3) stderr_counts [OF dry(4)] by blast
  next
    case attempt
    define h where "h = (if stopping (app_loop app') then Some (lp_exit_code (app_loop app')) else None)"
    let ?m' = "m\<lparr>outstanding := False, hist := hist m @ [None], attempts := Suc (attempts m), halted := h\<rparr>"
    have run: "\<not> stopping (app_loop b)"
      using rel assms(1) by (auto simp: mon_rel_def split: if_splits)
    have h: "h = None \<or> h = Some LS_EXIT_SUCCESS"
      using attempt(3) run by (auto simp: h_def)
    have "mon_step (fail_threshold cfg) (poweroff cfg) m ?m'"
      by (rule mon_step.fail_act) (use attempt assms(1) fails cfg h in simp_all)
    moreover have "mon_rel s0 app' w' ?m'"
      using attempt(3) rel assms(1) attempt_counts [OF attempt(4)]
      by (auto simp: mon_rel_def h_def)
    ultimately show ?thesis
      using attempt(3) attempt_counts(3) [OF attempt(4)] by blast
  qed
  then show "\<exists>m'. mon_step (fail_threshold cfg) (poweroff cfg) m m' \<and> mon_rel s0 app' w' m'"
    and "world_os w' = world_os v" and "app' = b \<or> app' = app_stop LS_EXIT_SUCCESS b" by blast+
qed

text \<open>To keep the invariant: keep the wiring and answer each related monitor state with at most one
  monitor step.\<close>

lemma mon_inv_step:
  assumes "mon_inv cfg s0 app w" "world_os w' = world_os w" "app_wired cfg app'"
    and "\<And>m. mon_rel s0 app w m \<Longrightarrow>
      \<exists>m'. (m' = m \<or> mon_step (fail_threshold cfg) (poweroff cfg) m m') \<and> mon_rel s0 app' w' m'"
  shows "mon_inv cfg s0 app' w'"
  using assms unfolding mon_inv_def by (metis mon_reach.step)

lemma probe_reset_select [simp]:
  "app_config (probe_reset app) = app_config app" "app_stats (probe_reset app) = app_stats app"
  "app_icmp (probe_reset app) = app_icmp app" "app_notify (probe_reset app) = app_notify app"
  "reply_timer (probe_reset app) = reply_timer app" "consecutive_fails (probe_reset app) = consecutive_fails app"
  "probe_sequence (probe_reset app) = 0" "stopping (app_loop (probe_reset app)) = stopping (app_loop app)"
  "lp_exit_code (app_loop (probe_reset app)) = lp_exit_code (app_loop app)"
  "timers (app_loop (probe_reset app)) = (timers (app_loop app))[reply_timer app := ls_timer_disarm (timers (app_loop app) ! reply_timer app)]"
  by (simp_all add: probe_reset_def Let_def)

lemma reply_disarmed:
  assumes "app_wired cfg app"
  shows "\<not> reply_armed (probe_reset app)"
  using assms by (auto elim!: wired_timers simp: app_wired_def)

lemma mon_rel_reset_fatal:
  assumes "mon_rel s0 app w m" "app_wired cfg app" "halted m = None"
  shows "mon_rel s0 (app_stop LS_EXIT_FAILURE (probe_reset app)) w (m\<lparr>outstanding := False, halted := Some LS_EXIT_FAILURE\<rparr>)"
  using assms reply_disarmed [OF assms(2)] by (auto simp: mon_rel_def)

lemma mon_rel_reset_ok:
  assumes "mon_rel s0 app w m" "app_wired cfg app" "halted m = None" "reply_armed app"
  shows "mon_rel s0 ((probe_reset app)\<lparr>consecutive_fails := 0, app_stats := ls_stats_add_ok lat (app_stats app)\<rparr>) w
    (m\<lparr>outstanding := False, hist := hist m @ [Some lat]\<rparr>)"
  using assms reply_disarmed [OF assms(2)] by (auto simp: mon_rel_def)

lemma mon_rel_reset_fail:
  assumes "mon_rel s0 app w m" "app_wired cfg app" "halted m = None" "reply_armed app"
  shows "mon_rel s0 ((probe_reset app)\<lparr>consecutive_fails := consecutive_fails app + 1,
      app_stats := ls_stats_add_fail (app_stats app)\<rparr>) w (m\<lparr>outstanding := False, hist := hist m @ [None]\<rparr>)"
  using assms reply_disarmed [OF assms(2)] by (auto simp: mon_rel_def)

lemma mon_inv_running:
  assumes "mon_inv cfg s0 app w" "\<not> stopping (app_loop app)"
  shows "app_wired cfg app" "\<And>m. mon_rel s0 app w m \<Longrightarrow> halted m = None"
  using assms by (auto simp: mon_inv_def mon_rel_def)

text \<open>A callback that ends in a state with the policy fields of \<open>b\<close>, after effects that are neither a
  send nor a spawn, and whose \<open>b\<close> answers one monitor step, keeps the invariant.\<close>

lemma mon_inv_drain_step:
  assumes inv: "mon_inv cfg s0 app w" and core: "core app' = core b" and ev: "evolves drain_effect w w'"
    and wired: "app_wired cfg b"
    and step: "\<And>m. mon_rel s0 app w m \<Longrightarrow>
      \<exists>m'. (m' = m \<or> mon_step (fail_threshold cfg) (poweroff cfg) m m') \<and> mon_rel s0 b w m'"
  shows "mon_inv cfg s0 app' w'"
  by (rule mon_inv_step [OF inv])
    (use drain_counts [OF ev] wired step in \<open>simp_all add: app_wired_cong [OF core] mon_rel_cong [OF core]
      mon_rel_world [OF drain_counts [OF ev]]\<close>)

lemma app_wired_outcome: "app_wired cfg b \<Longrightarrow> app' = b \<or> app' = app_stop code b \<Longrightarrow> app_wired cfg app'"
  by auto

lemma mon_inv_fatal_reset:
  assumes inv: "mon_inv cfg s0 app w" and run: "\<not> stopping (app_loop app)"
    and "core app' = app_stop LS_EXIT_FAILURE (probe_reset (core app))" and ev: "evolves drain_effect w w'"
  shows "mon_inv cfg s0 app' w'"
proof -
  note W = mon_inv_running [OF inv run]
  have core: "core app' = core (app_stop LS_EXIT_FAILURE (probe_reset app))" using assms(3) by simp
  show ?thesis
  proof (rule mon_inv_drain_step [OF inv core ev])
    fix m assume m: "mon_rel s0 app w m"
    have "mon_step (fail_threshold cfg) (poweroff cfg) m (m\<lparr>outstanding := False, halted := Some LS_EXIT_FAILURE\<rparr>)"
      by (rule mon_step.fatal) (simp_all add: W(2) [OF m])
    with mon_rel_reset_fatal [OF m W(1) W(2) [OF m]]
    show "\<exists>m'. (m' = m \<or> mon_step (fail_threshold cfg) (poweroff cfg) m m') \<and>
        mon_rel s0 (app_stop LS_EXIT_FAILURE (probe_reset app)) w m'" by blast
  qed (simp add: W(1))
qed

lemma mon_inv_reply:
  assumes inv: "mon_inv cfg s0 app w" and run: "\<not> stopping (app_loop app)" and armed: "reply_armed app" and "0 \<le> lat"
    and "core app' = (probe_reset (core app))\<lparr>consecutive_fails := 0, app_stats := ls_stats_add_ok lat (app_stats app)\<rparr>"
    and ev: "evolves drain_effect w w'"
  shows "mon_inv cfg s0 app' w'"
proof -
  note W = mon_inv_running [OF inv run]
  let ?a = "(probe_reset app)\<lparr>consecutive_fails := 0, app_stats := ls_stats_add_ok lat (app_stats app)\<rparr>"
  have core: "core app' = core ?a" using assms(5) by simp
  show ?thesis
  proof (rule mon_inv_drain_step [OF inv core ev])
    fix m assume m: "mon_rel s0 app w m"
    have "mon_step (fail_threshold cfg) (poweroff cfg) m (m\<lparr>outstanding := False, hist := hist m @ [Some lat]\<rparr>)"
      by (rule mon_step.reply) (use armed assms(4) m W(2) [OF m] in \<open>simp_all add: mon_rel_def\<close>)
    with mon_rel_reset_ok [OF m W(1) W(2) [OF m] armed]
    show "\<exists>m'. (m' = m \<or> mon_step (fail_threshold cfg) (poweroff cfg) m m') \<and> mon_rel s0 ?a w m'" by blast
  qed (simp add: W(1))
qed

lemma drain_inv:
  assumes inv: "mon_inv cfg s0 app w" and run: "\<not> stopping (app_loop app)"
    and "drain_loop n app w = (b, app', w')"
  shows "mon_inv cfg s0 app' w'"
  using assms(3)
proof (cases rule: drain_loop_cases)
  case none
  show ?thesis
    by (rule mon_inv_drain_step [OF inv none(2,3) mon_inv_running(1) [OF inv run]]) blast
next
  case fail
  show ?thesis by (rule mon_inv_fatal_reset [OF inv run fail(2,3)])
next
  case (hit lat)
  show ?thesis by (rule mon_inv_reply [OF inv run hit(2-5)])
qed

text \<open>A failed probe, followed by the threshold check.\<close>

lemma mon_inv_failure:
  assumes inv: "mon_inv cfg s0 app w" and run: "\<not> stopping (app_loop app)" and wb: "app_wired cfg b"
    and v: "world_os v = world_os w" and ct: "check_threshold b v = (app', w')"
    and rel: "\<And>m. mon_rel s0 app w m \<Longrightarrow> mon_rel s0 b v (m\<lparr>outstanding := False, hist := hist m @ [None]\<rparr>)"
  shows "mon_inv cfg s0 app' w'"
proof -
  have cb: "app_config b = cfg" using wb by (simp add: app_wired_def)
  note step = check_threshold_step [OF mon_inv_running(2) [OF inv run] rel cb ct]
  obtain m0 where m0: "mon_rel s0 app w m0" using inv by (auto simp: mon_inv_def)
  show ?thesis
  proof (rule mon_inv_step [OF inv])
    show "world_os w' = world_os w" using step(2) [OF m0 m0] v by simp
    show "app_wired cfg app'" using app_wired_outcome [OF wb step(3) [OF m0 m0]] .
    show "\<exists>m'. (m' = m \<or> mon_step (fail_threshold cfg) (poweroff cfg) m m') \<and> mon_rel s0 app' w' m'"
      if "mon_rel s0 app w m" for m
      using step(1) [OF that that] by blast
  qed
qed

lemma on_reply_inv:
  assumes inv: "mon_inv cfg s0 app w" and run: "\<not> stopping (app_loop app)" and armed: "reply_armed app"
    and "on_reply_timer app w = (app', w')"
  shows "mon_inv cfg s0 app' w'"
  using assms(4) run
proof (cases rule: on_reply_timer_cases)
  case fatal
  show ?thesis by (rule mon_inv_fatal_reset [OF inv run fatal])
next
  case (hit lat)
  show ?thesis by (rule mon_inv_reply [OF inv run hit(1,2,4,3)])
next
  case (timeout b v)
  note W = mon_inv_running [OF inv run]
  let ?a = "(probe_reset app)\<lparr>consecutive_fails := consecutive_fails app + 1, app_stats := ls_stats_add_fail (app_stats app)\<rparr>"
  have core: "core b = core ?a" using timeout(3) by simp
  show ?thesis
  proof (rule mon_inv_failure [OF inv run _ _ timeout(2)])
    show "app_wired cfg b" using W(1) by (simp add: app_wired_cong [OF core])
    show "world_os v = world_os w" using drain_counts [OF timeout(1)] by simp
    show "mon_rel s0 b v (m\<lparr>outstanding := False, hist := hist m @ [None]\<rparr>)" if "mon_rel s0 app w m" for m
      using mon_rel_reset_fail [OF that W(1) W(2) [OF that] armed]
      by (simp only: mon_rel_cong [OF core] mon_rel_world [OF drain_counts [OF timeout(1)]])
  qed
qed

lemma send_counts:
  assumes "evolves (send_effect tgt) w w'"
  shows "spawns w' = spawns w" "echoes w \<le> echoes w'" "world_os w' = world_os w"
proof -
  have "send_effect tgt e \<Longrightarrow> \<not> is_Spawn e" for e
    by (cases e) (auto simp: send_effect_def quiet_def)
  then show "spawns w' = spawns w"
    using evolves_filter [OF assms, of is_Spawn] by (simp add: spawns_def)
  show "echoes w \<le> echoes w'" "world_os w' = world_os w"
    using assms by (auto simp: evolves_def echoes_def)
qed

lemma wired_reply_index:
  assumes "app_wired cfg app"
  shows "(timers (app_loop app))[2 := t] ! 1 = timers (app_loop app) ! 1" "(timers (app_loop app))[1 := t] ! 1 = t"
  using assms by (auto elim!: wired_timers)

lemma ping_step_rel:
  assumes "app_wired cfg app"
  shows "mon_rel s0 (upd_timer f (ping_timer app) app) w m = mon_rel s0 app w m"
  using assms by (simp add: mon_rel_def app_wired_def)

lemma ls_timer_arm_after_armed:
  "unat base + unat delta < 18446744073709551615 \<Longrightarrow> ls_timer_armed (ls_timer_arm_after base delta t)"
  by (simp add: ls_timer_armed_def ls_timer_arm_after_def ls_add_sat_eq_MAX)

text \<open>The three outcomes of a ping that finds no probe outstanding. Stepping the ping timer is invisible to the
  monitor, so the state \<open>a1\<close> after it may stand for the state before.\<close>

lemma ping_fatal_inv:
  assumes inv: "mon_inv cfg s0 a1 w" and run: "\<not> stopping (app_loop a1)" and idle: "\<not> reply_armed a1"
    and core: "core app' = core (app_stop LS_EXIT_FAILURE (a1\<lparr>app_icmp := ic\<rparr>))" and ev: "evolves (send_effect tgt) w w'"
  shows "mon_inv cfg s0 app' w'"
proof (rule mon_inv_step [OF inv])
  note W = mon_inv_running [OF inv run]
  fix m assume m: "mon_rel s0 a1 w m"
  let ?m' = "m\<lparr>outstanding := outstanding m, halted := Some LS_EXIT_FAILURE\<rparr>"
  have "mon_step (fail_threshold cfg) (poweroff cfg) m ?m'"
    by (rule mon_step.fatal) (simp_all add: W(2) [OF m])
  moreover have "mon_rel s0 (app_stop LS_EXIT_FAILURE (a1\<lparr>app_icmp := ic\<rparr>)) w' ?m'"
    using m send_counts [OF ev] idle by (auto simp: mon_rel_def)
  ultimately show "\<exists>m'. (m' = m \<or> mon_step (fail_threshold cfg) (poweroff cfg) m m') \<and> mon_rel s0 app' w' m'"
    using mon_rel_cong [OF core] by blast
qed (use send_counts [OF ev] mon_inv_running(1) [OF inv run] in \<open>simp_all add: app_wired_cong [OF core]\<close>)

lemma ping_refused_inv:
  assumes inv: "mon_inv cfg s0 a1 w" and run: "\<not> stopping (app_loop a1)" and idle: "\<not> reply_armed a1"
    and core: "core b = core (a1\<lparr>app_icmp := ic, consecutive_fails := consecutive_fails a1 + 1,
      app_stats := ls_stats_add_fail (app_stats a1)\<rparr>)"
    and ev: "evolves quiet (emit (Echo_send pkt d dl (Inl e)) (w\<lparr>tick := Suc (tick w)\<rparr>)) v" and ct: "check_threshold b v = (app', w')"
  shows "mon_inv cfg s0 app' w'"
proof -
  note W = mon_inv_running [OF inv run]
  have cnt: "spawns v = spawns w" "echoes v = Suc (echoes w)" "world_os v = world_os w"
    using quiet_counts [OF ev] by (simp_all add: spawns_def echoes_def)
  show ?thesis
  proof (rule mon_inv_failure [OF inv run _ cnt(3) ct])
    show "app_wired cfg b" using W(1) by (simp add: app_wired_cong [OF core])
    show "mon_rel s0 b v (m\<lparr>outstanding := False, hist := hist m @ [None]\<rparr>)" if m: "mon_rel s0 a1 w m" for m
      using m idle W(2) [OF m] cnt(1,2) run
      by (simp add: mon_rel_cong [OF core]) (auto simp: mon_rel_def)
  qed
qed

lemma ping_sent_inv:
  assumes inv: "mon_inv cfg s0 a1 w" and run: "\<not> stopping (app_loop a1)" and idle: "\<not> reply_armed a1"
    and sq: "icmp_sequence ic = next_sequence (icmp_sequence (app_icmp a1))"
    and w': "w' = (emit (Echo_send pkt d dl (Inr n)) (w\<lparr>tick := Suc (tick w)\<rparr>))\<lparr>tick := Suc (Suc (tick w))\<rparr>"
    and app': "app' = upd_timer (ls_timer_arm_after (now_ms (app_loop a1)) (timeout_ms cfg)) (reply_timer a1)
      (a1\<lparr>app_icmp := ic, probe_sent_ns := t, probe_sequence := icmp_sequence ic\<rparr>)"
  shows "mon_inv cfg s0 app' w'"
proof -
  note W = mon_inv_running [OF inv run]
  define a2 where "a2 = a1\<lparr>app_icmp := ic, probe_sent_ns := t, probe_sequence := icmp_sequence ic\<rparr>"
  have w2: "app_wired cfg a2" using W(1) by (simp add: a2_def)
  have "unat (now_ms (app_loop a1)) + unat (timeout_ms cfg) < 18446744073709551615"
    using W(1) by (simp add: app_wired_def)
  then have armed: "reply_armed app'"
    using wired_reply_index(2) [OF W(1)] W(1) ls_timer_arm_after_armed [of "now_ms (app_loop a1)" "timeout_ms cfg"]
    by (simp add: app' app_wired_def)
  have cnt: "spawns w' = spawns w" "echoes w' = Suc (echoes w)" "world_os w' = world_os w"
    using w' by (simp_all add: spawns_def echoes_def)
  show ?thesis
  proof (rule mon_inv_step [OF inv cnt(3)])
    show "app_wired cfg app'" using w2 by (simp add: app' a2_def [symmetric])
    fix m assume m: "mon_rel s0 a1 w m"
    have "mon_step (fail_threshold cfg) (poweroff cfg) m (m\<lparr>outstanding := True\<rparr>)"
      by (rule mon_step.send) (use W(2) [OF m] m idle in \<open>simp_all add: mon_rel_def\<close>)
    moreover have "mon_rel s0 app' w' (m\<lparr>outstanding := True\<rparr>)"
      using m armed cnt W(2) [OF m] idle sq run
      by (simp add: mon_rel_def) (simp add: app')
    ultimately show "\<exists>m'. (m' = m \<or> mon_step (fail_threshold cfg) (poweroff cfg) m m') \<and> mon_rel s0 app' w' m'" by blast
  qed
qed

lemma on_ping_inv:
  assumes inv: "mon_inv cfg s0 app w" and run: "\<not> stopping (app_loop app)"
    and "on_ping_timer app w = (app', w')"
  shows "mon_inv cfg s0 app' w'"
proof -
  note W = mon_inv_running [OF inv run]
  have idx: "ping_timer app = 2" "reply_timer app = 1" "app_config app = cfg" using W(1) by (simp_all add: app_wired_def)
  define a1 where "a1 = upd_timer (ls_timer_step (interval_ms (app_config app)) (now_ms (app_loop app))) (ping_timer app) app"
  have inv1: "mon_inv cfg s0 a1 w"
    using W(1) ping_step_rel [OF W(1)] by (intro mon_inv_step [OF inv]) (auto simp: a1_def)
  have sel1: "consecutive_fails a1 = consecutive_fails app" "app_stats a1 = app_stats app"
    "ls_timer_armed (timers (app_loop a1) ! reply_timer app) = reply_armed app" "stopping (app_loop a1) = stopping (app_loop app)" "app_icmp a1 = app_icmp app"
    "now_ms (app_loop a1) = now_ms (app_loop app)" "reply_timer a1 = reply_timer app"
    using idx by (simp_all add: a1_def)
  have "ping_timer app \<noteq> reply_timer app" using idx by simp
  with assms(3) show ?thesis
  proof (cases rule: on_ping_timer_cases)
    case busy
    with inv1 show ?thesis by (simp add: a1_def)
  next
    case (fatal ic)
    show ?thesis
      by (rule ping_fatal_inv [OF inv1 _ _ _ fatal(6)]) (use fatal(1,2) run in \<open>simp_all add: sel1 a1_def [symmetric]\<close>)
  next
    case (refused ic pkt e v b)
    show ?thesis
      by (rule ping_refused_inv [OF inv1 _ _ _ refused(7,8)]) (use refused(1,9) run in \<open>simp_all add: sel1 a1_def [symmetric]\<close>)
  next
    case (sent ic pkt t)
    show ?thesis
      by (rule ping_sent_inv [OF inv1 _ _ _ sent(7), where t = t and ic = ic])
        (use sent(1,6,8) run in \<open>simp_all add: sel1 a1_def [symmetric] idx(3) [symmetric]\<close>)
  qed
qed

lemma on_watchdog_inv:
  assumes inv: "mon_inv cfg s0 app w" and "on_watchdog_timer app w = (app', w')"
  shows "mon_inv cfg s0 app' w'"
proof -
  have wired: "app_wired cfg app" using inv by (simp add: mon_inv_def)
  have idx: "watchdog_timer app = 0" "reply_timer app = 1" using wired by (simp_all add: app_wired_def)
  obtain f b where app': "app' = (upd_timer f (watchdog_timer app) app)\<lparr>watchdog_last_failed := b\<rparr>"
    and f: "\<And>t. timer_cb (f t) = timer_cb t"
    using on_watchdog_timer_frame(1) [OF assms(2)] by (metis timer_cb_ops(2))
  have "spawns w' = spawns w" "echoes w' = echoes w" "world_os w' = world_os w"
    by (rule evolves_counts [OF on_watchdog_timer_frame(2) [OF assms(2)]]; auto)+
  then show ?thesis
    using wired idx f by (intro mon_inv_step [OF inv]) (auto simp: app' mon_rel_def)
qed

lemma on_signal_inv:
  assumes inv: "mon_inv cfg s0 app w" and run: "\<not> stopping (app_loop app)" and "on_signal n app w = (app', w')"
  shows "mon_inv cfg s0 app' w'"
proof -
  note W = mon_inv_running [OF inv run]
  have "(app' = app \<or> app' = app_stop LS_EXIT_SUCCESS app) \<and> evolves is_Stderr w w'"
    using assms(3) log_statistics_evolves by (auto simp: on_signal_def split: if_splits)
  then have a: "app' = app \<or> app' = app_stop LS_EXIT_SUCCESS app"
    and c: "spawns w' = spawns w \<and> echoes w' = echoes w \<and> world_os w' = world_os w"
    using stderr_counts by blast+
  show ?thesis
  proof (rule mon_inv_step [OF inv])
    fix m assume m: "mon_rel s0 app w m"
    have "mon_step (fail_threshold cfg) (poweroff cfg) m (m\<lparr>halted := Some LS_EXIT_SUCCESS\<rparr>)"
      by (rule mon_step.stop [OF W(2) [OF m]])
    then show "\<exists>m'. (m' = m \<or> mon_step (fail_threshold cfg) (poweroff cfg) m m') \<and> mon_rel s0 app' w' m'"
      using a m mon_rel_stop [OF m W(2) [OF m]] mon_rel_world [OF c] by auto
  qed (use a c W(1) in auto)
qed

lemma mon_inv_stop:
  assumes inv: "mon_inv cfg s0 app w" and run: "\<not> stopping (app_loop app)"
  shows "mon_inv cfg s0 (app_stop LS_EXIT_FAILURE app) w"
proof (rule mon_inv_step [OF inv])
  note W = mon_inv_running [OF inv run]
  show "app_wired cfg (app_stop LS_EXIT_FAILURE app)" using W(1) by simp
  fix m assume m: "mon_rel s0 app w m"
  have "mon_step (fail_threshold cfg) (poweroff cfg) m (m\<lparr>outstanding := outstanding m, halted := Some LS_EXIT_FAILURE\<rparr>)"
    by (rule mon_step.fatal [OF W(2) [OF m]]) simp
  with mon_rel_stop [OF m W(2) [OF m], of LS_EXIT_FAILURE]
  show "\<exists>m'. (m' = m \<or> mon_step (fail_threshold cfg) (poweroff cfg) m m') \<and> mon_rel s0 (app_stop LS_EXIT_FAILURE app) w m'"
    by auto
qed simp

text \<open>A change of the loop object that keeps timers and stop flag is invisible to the monitor.\<close>

lemma mon_inv_loop:
  assumes inv: "mon_inv cfg s0 app w" and c: "spawns w' = spawns w \<and> echoes w' = echoes w \<and> world_os w' = world_os w"
    and "timers l = timers (app_loop app)" "stopping l = stopping (app_loop app)"
    "lp_exit_code l = lp_exit_code (app_loop app)" "unat (now_ms l) < 9223372036854775808"
  shows "mon_inv cfg s0 (set_app_loop l app) w'"
proof (rule mon_inv_step [OF inv])
  show "app_wired cfg (set_app_loop l app)"
    using inv assms(3-) by (simp add: mon_inv_def set_app_loop_def app_wired_def)
  fix m assume "mon_rel s0 app w m"
  then have "mon_rel s0 (set_app_loop l app) w' m"
    using assms(3-5) by (simp add: mon_rel_world [OF c]) (auto simp: set_app_loop_def mon_rel_def)
  then show "\<exists>m'. (m' = m \<or> mon_step (fail_threshold cfg) (poweroff cfg) m m') \<and> mon_rel s0 (set_app_loop l app) w' m'"
    by blast
qed (simp add: c)

lemma refresh_now_sane:
  assumes "clock_sane (world_os w)" "refresh_now l w = (True, l', w')"
  shows "l' = l\<lparr>now_ms := now_ms l'\<rparr>" "unat (now_ms l') < 9223372036854775808" "w' = w\<lparr>tick := Suc (tick w)\<rparr>"
  using assms unfolding refresh_now_def ls_now_ms_def clock_sane_def
  by (auto simp: ask_def Let_def split: option.splits if_splits)

text \<open>Which callback a due timer slot runs.\<close>

lemma wired_callback:
  assumes "app_wired cfg app" "i < length (timers (app_loop app))" "timer_due (app_loop app) i"
  obtains (watchdog) "i = 0" "app_timer_callback (timer_cb (timers (app_loop app) ! i)) = on_watchdog_timer"
  | (reply) "i = 1" "app_timer_callback (timer_cb (timers (app_loop app) ! i)) = on_reply_timer" "reply_armed app"
  | (ping) "i = 2" "app_timer_callback (timer_cb (timers (app_loop app) ! i)) = on_ping_timer"
proof -
  obtain a b c where t: "timers (app_loop app) = [a, b, c]" "timer_cb a = On_watchdog_timer"
    "timer_cb b = On_reply_timer" "timer_cb c = On_ping_timer"
    using assms(1) by (rule wired_timers)
  have "i = 0 \<or> i = 1 \<or> i = 2" using assms(2) t(1) by auto
  moreover have "reply_timer app = 1" using assms(1) by (simp add: app_wired_def)
  ultimately show ?thesis
    using that t assms(3) by (auto simp: timer_due_def)
qed

interpretation app_mon: loop_client app_client "mon_inv cfg s0" for cfg s0
proof
  fix a w l w' assume inv: "mon_inv cfg s0 a w" and r: "refresh_now (cl_loop app_client a) w = (True, l, w')"
  have "clock_sane (world_os w)" using inv by (simp add: mon_inv_def)
  note R = refresh_now_sane [OF this r]
  have "spawns w' = spawns w \<and> echoes w' = echoes w \<and> world_os w' = world_os w"
    by (simp add: R(3) spawns_def echoes_def)
  moreover have "timers l = timers (app_loop a)" "stopping l = stopping (app_loop a)" "lp_exit_code l = lp_exit_code (app_loop a)"
    by (subst R(1), simp)+
  ultimately show "mon_inv cfg s0 (cl_set_loop app_client l a) w'"
    using mon_inv_loop [OF inv] R(2) by simp
next
  show "mon_inv cfg s0 (cl_set_loop app_client (ls_loop_stop LS_EXIT_FAILURE (cl_loop app_client a)) a) w"
    if "mon_inv cfg s0 a w" "\<not> stopping (cl_loop app_client a)" for a w
    using mon_inv_stop [OF that(1)] that(2) by (simp add: app_stop_def set_app_loop_def)
next
  fix a w rs assume inv: "mon_inv cfg s0 a w"
  then show "mon_inv cfg s0 (cl_set_loop app_client ((cl_loop app_client a)\<lparr>fds := set_revents rs (fds (cl_loop app_client a))\<rparr>) a) w"
    using mon_inv_loop [OF inv, of w] by (simp add: mon_inv_def app_wired_def)
next
  show "mon_inv cfg s0 a w'" if "mon_inv cfg s0 a w" "evolves is_Stderr w w'" for a w w'
    using that mon_rel_world [OF stderr_counts [OF that(2)]] stderr_counts [OF that(2)] by (simp add: mon_inv_def)
next
  fix a w i a' w' assume inv: "mon_inv cfg s0 a w" and run: "\<not> stopping (cl_loop app_client a)"
    and i: "i < length (timers (cl_loop app_client a))" "timer_due (cl_loop app_client a) i"
    and cb: "cl_timer_cb app_client (timer_cb (timers (cl_loop app_client a) ! i)) a w = (a', w')"
  have "app_wired cfg a" using inv by (simp add: mon_inv_def)
  then show "mon_inv cfg s0 a' w'"
    using i run cb on_watchdog_inv [OF inv] on_reply_inv [OF inv] on_ping_inv [OF inv]
    by (elim wired_callback) auto
next
  show "mon_inv cfg s0 a' w'" if "mon_inv cfg s0 a w" "\<not> stopping (cl_loop app_client a)"
    "cl_fd_cb app_client f (poll_fd p) a w = (a', w')" for a w p f a' w'
    using that drain_inv [OF that(1)]
    by (auto simp: on_icmp_readable_def drain_and_match_reply_def split: prod.splits)
next
  show "mon_inv cfg s0 a' w'" if "mon_inv cfg s0 a w" "\<not> stopping (cl_loop app_client a)"
    "cl_signal_cb app_client s n a w = (a', w')" for a w s n a' w'
    using that on_signal_inv [OF that(1)] by simp
qed

end
