(* ===== verification/LS_Main.thy ===== *)
theory LS_Main
  imports LS_App
begin

text \<open>
  The second half of \<^verbatim>\<open>src/app.c\<close>: banners, construction and destruction of the application,
  the wiring of the event loop, and \<^verbatim>\<open>main\<close>. Since the loop may run forever, \<open>app_run\<close> and
  \<open>ls_main\<close> are options; \<open>None\<close> is a process that never exits on its own.
\<close>

section \<open>Banners\<close>

definition log_startup :: "app_t \<Rightarrow> world \<Rightarrow> bool \<times> app_t \<times> world" where
  "log_startup app w =
     (let cfg = app_config app;
          detection_ms = ls_mul_sat (word_of_int (fail_threshold cfg)) (interval_ms cfg);
          interval_str = ls_format_duration (interval_ms cfg) 32;
          timeout_str = ls_format_duration (timeout_ms cfg) 32;
          detection_str = ls_format_duration detection_ms 32;
          delay_str = ls_format_duration (start_delay_ms cfg) 32;
          first_probe_str = (if start_delay_ms cfg = 0 then c_snprintf 64 ''immediate''
                             else c_snprintf 64 (''in '' @ delay_str));
          mode = (if poweroff cfg then ''true'' else ''false (dry-run)'');
          w = ls_info (app_log app) (LS_PROGRAM_NAME @ '' '' @ LS_VERSION @ '' monitoring '' @ target cfg @
                '' | first probe '' @ first_probe_str @ '' | interval '' @ interval_str @ '', timeout '' @ timeout_str @
                '', threshold '' @ show_int (fail_threshold cfg) @ '' (detection ~'' @ detection_str @
                ''), poweroff '' @ mode) w;
          (ready, w) = ls_notify_ready (app_notify app) w
      in if \<not> ready
         then (False, app, ls_error (app_log app) ''Failed to send systemd READY notification'' w)
         else let (app, w) =
                    (if start_delay_ms cfg = 0
                     then app_statusf (''Monitoring '' @ target cfg @ '' every '' @ interval_str @ ''; poweroff '' @ mode) app w
                     else app_statusf (''Waiting '' @ delay_str @ '' before first probe; poweroff '' @ mode) app w)
              in (True, app, w))"

definition log_shutdown :: "int \<Rightarrow> app_t \<Rightarrow> world \<Rightarrow> world" where
  "log_shutdown exit_code app w =
     (let (_, w) = ls_notify_stopping (app_notify app) w;
          w = log_statistics app w
      in if exit_code = LS_EXIT_SUCCESS then ls_info (app_log app) (LS_PROGRAM_NAME @ '' monitor stopped'') w else w)"

section \<open>Application lifecycle\<close>

definition zero_loop :: app_loop_t where
  "zero_loop = (ls_loop_init (ls_log_init LS_LOG_ERROR))\<lparr>signal_fd := 0\<rparr>"

definition zero_stats :: ls_stats_t where
  "zero_stats =
     \<lparr>st_ok = 0, st_failed = 0, latency_sum_us = 0, latency_min_us = 0, latency_max_us = 0, started_at_ms = 0\<rparr>"

definition zero_config :: ls_config_t where
  "zero_config =
     \<lparr>target = [], interval_ms = 0, fail_threshold = 0, timeout_ms = 0, start_delay_ms = 0, poweroff = False,
      log_level = LS_LOG_ERROR\<rparr>"

text \<open>The zero-initialised \<^verbatim>\<open>app_t\<close>.\<close>

definition zero_app :: app_t where
  "zero_app =
     \<lparr>app_config = zero_config, app_log = ls_log_init LS_LOG_ERROR, app_stats = zero_stats, app_icmp = zero_icmp,
      app_notify = zero_notify, app_dest = zero_sockaddr, app_dest_len = 0, app_identifier = 0,
      app_loop = zero_loop, ping_timer = 0, reply_timer = 0, watchdog_timer = 0, probe_sent_ns = 0,
      probe_sequence = 0, consecutive_fails = 0, watchdog_last_failed = False\<rparr>"

definition make_identifier :: "int \<Rightarrow> u16" where
  "make_identifier pid = (let i = word_of_int pid in if i = 0 then 1 else i)"

definition family_name :: "nat \<Rightarrow> string" where
  "family_name family = (if family = AF_INET6 then ''IPv6'' else ''IPv4'')"

definition app_init :: "ls_config_t \<Rightarrow> world \<Rightarrow> (ls_err_t + unit) \<times> app_t \<times> world" where
  "app_init config w =
     (let sys = world_os w;
          app = zero_app\<lparr>app_config := config, app_identifier := make_identifier (os_getpid sys),
                  app_icmp := zero_icmp\<lparr>icmp_sockfd := -1\<rparr>, app_notify := zero_notify\<lparr>nt_sockfd := -1\<rparr>\<rparr>;
          app = app\<lparr>app_log := ls_log_init (log_level config)\<rparr>;
          w = (if log_level config = LS_LOG_DEBUG then ls_config_dump config (app_log app) w else w)
      in case ls_addr_parse sys (Some (target config)) of
           Inl e \<Rightarrow> (Inl e, app, w)
         | Inr (dest, dest_len) \<Rightarrow>
             (let app = app\<lparr>app_dest := dest, app_dest_len := dest_len\<rparr>;
                  (r, notify, w) = ls_notify_init w;
                  app = app\<lparr>app_notify := notify\<rparr>
              in case r of
                   Inl e \<Rightarrow> (Inl e, app, w)
                 | Inr _ \<Rightarrow>
                     (let family = ss_family (app_dest app);
                          (r, icmp, w) = ls_icmp_open family (app_icmp app) w;
                          app = app\<lparr>app_icmp := icmp\<rparr>
                      in case r of
                           Inl e \<Rightarrow> (Inl e, app, w)
                         | Inr _ \<Rightarrow>
                             (let w = (case bpf_errno (app_icmp app) of
                                  Some e \<Rightarrow> ls_warn (app_log app) (''ICMP BPF filter unavailable for '' @ family_name family @
                                    '' traffic: '' @ os_strerror sys e @ ''; continuing without kernel-side packet filtering'') w
                                | None \<Rightarrow> ls_debug (app_log app) (''ICMP BPF filter active for '' @ family_name family @
                                    '' traffic'') w);
                                  (stats, w) = ls_stats_init w;
                                  app = app\<lparr>app_stats := stats\<rparr>;
                                  watchdog_interval_ms = ls_notify_watchdog_interval_ms (app_notify app);
                                  w = (if watchdog_interval_ms > 0
                                       then ls_debug (app_log app) (''systemd watchdog ping every '' @
                                              show_u64 watchdog_interval_ms @ ''ms'') w
                                       else ls_debug (app_log app) ''systemd watchdog disabled'' w);
                                  w = (if poweroff config \<and> fail_threshold config < LS_WARN_THRESHOLD_MIN_WITH_POWEROFF
                                       then ls_warn (app_log app) (''Poweroff is enabled but threshold is only '' @
                                              show_int (fail_threshold config) @ '' consecutive failures '' @
                                              [CHR 0xE2, CHR 0x80, CHR 0x94] @
                                              '' a single network blip could trigger a shutdown'') w
                                       else w)
                              in (Inr (), app, w)))))"

definition app_destroy :: "app_t \<Rightarrow> world \<Rightarrow> app_t \<times> world" where
  "app_destroy app w =
     (let (_, w) = ls_notify_destroy (app_notify app) w;
          (_, w) = ls_icmp_close (app_icmp app) w
      in (zero_app, w))"

definition WATCHED_SIGNALS :: "nat list" where
  "WATCHED_SIGNALS = [SIGINT, SIGTERM, SIGUSR1]"

text \<open>The registrations of \<^verbatim>\<open>app_run\<close>, in order; the first failure ends the chain.\<close>

definition wire_loop :: "app_t \<Rightarrow> world \<Rightarrow> (ls_err_t + unit) \<times> app_t \<times> world" where
  "wire_loop app w =
     (let (r, l, w) = ls_loop_watch_signals WATCHED_SIGNALS On_signal (app_loop app) w;
          app = app\<lparr>app_loop := l\<rparr>
      in case r of Inl e \<Rightarrow> (Inl e, app, w) | Inr _ \<Rightarrow>
        (case ls_loop_add_fd (icmp_sockfd (app_icmp app)) (Fd_cb On_icmp_readable) False (app_loop app) of
           Inl e \<Rightarrow> (Inl e, app, w) | Inr l \<Rightarrow>
        (let app = app\<lparr>app_loop := l\<rparr> in case ls_loop_add_timer On_watchdog_timer (app_loop app) of
           Inl e \<Rightarrow> (Inl e, app, w) | Inr (i, l) \<Rightarrow>
        (let app = app\<lparr>app_loop := l, watchdog_timer := i\<rparr> in case ls_loop_add_timer On_reply_timer (app_loop app) of
           Inl e \<Rightarrow> (Inl e, app, w) | Inr (i, l) \<Rightarrow>
        (let app = app\<lparr>app_loop := l, reply_timer := i\<rparr> in case ls_loop_add_timer On_ping_timer (app_loop app) of
           Inl e \<Rightarrow> (Inl e, app, w) | Inr (i, l) \<Rightarrow>
        (Inr (), app\<lparr>app_loop := l, ping_timer := i\<rparr>, w))))))"

definition destroy_loop :: "app_t \<Rightarrow> world \<Rightarrow> app_t \<times> world" where
  "destroy_loop app w = (let (l, w) = ls_loop_destroy (app_loop app) w in (app\<lparr>app_loop := l\<rparr>, w))"

text \<open>Everything \<^verbatim>\<open>app_run\<close> does before it enters the loop.\<close>

definition app_prepare :: "app_t \<Rightarrow> world \<Rightarrow> bool \<times> app_t \<times> world" where
  "app_prepare app w =
     (let app = app\<lparr>app_loop := ls_loop_init (app_log app)\<rparr>;
          (r, app, w) = wire_loop app w
      in case r of
           Inl err \<Rightarrow>
             (let w = ls_error (app_log app) (''Failed to set up event loop: '' @ err) w;
                  (app, w) = destroy_loop app w
              in (False, app, w))
         | Inr _ \<Rightarrow>
             (let (now, w) = ls_now_ms w
              in if now = UINT64_MAX
                 then let w = ls_error (app_log app) ''Failed to initialize monotonic timing state'' w;
                          (app, w) = destroy_loop app w
                      in (False, app, w)
                 else let app = upd_timer (ls_timer_arm_after now (start_delay_ms (app_config app))) (ping_timer app) app;
                          watchdog_interval_ms = ls_notify_watchdog_interval_ms (app_notify app);
                          app = (if watchdog_interval_ms > 0
                                 then upd_timer (ls_timer_arm_after now watchdog_interval_ms) (watchdog_timer app) app
                                 else app);
                          (ok, app, w) = log_startup app w
                      in if \<not> ok then (let (app, w) = destroy_loop app w in (False, app, w))
                         else (True, app, w)))"

definition app_run :: "app_t \<Rightarrow> world \<Rightarrow> (int \<times> app_t \<times> world) option" where
  "app_run app w =
     (let (ok, app, w) = app_prepare app w
      in if \<not> ok then Some (LS_EXIT_FAILURE, app, w)
         else map_option
           (\<lambda>(exit_code, app, w).
              let w = log_shutdown exit_code app w; (app, w) = destroy_loop app w in (exit_code, app, w))
           (ls_loop_run app_client app w))"

section \<open>Process entry point\<close>

definition log_fatal_error :: "ls_log_level_t \<Rightarrow> string \<Rightarrow> world \<Rightarrow> world" where
  "log_fatal_error level message w =
     ls_error (ls_log_init level) (LS_PROGRAM_NAME @ '' failed: '' @ message) w"

definition ls_main :: "world \<Rightarrow> (int \<times> world) option" where
  "ls_main w =
     (case ls_config_resolve (world_os w) of
        Inl err \<Rightarrow> Some (LS_EXIT_FAILURE, log_fatal_error LS_LOG_ERROR err w)
      | Inr config \<Rightarrow>
          (let (r, app, w) = app_init config w
           in case r of
                Inl err \<Rightarrow>
                  (let w = log_fatal_error (log_level config) err w; (_, w) = app_destroy app w
                   in Some (LS_EXIT_FAILURE, w))
              | Inr _ \<Rightarrow>
                  map_option
                    (\<lambda>(rc, app, w).
                       let w = (if rc \<noteq> LS_EXIT_SUCCESS
                                then ls_error (app_log app) (LS_PROGRAM_NAME @ '' exited with code '' @ show_int rc) w else w);
                           (_, w) = app_destroy app w
                       in (rc, w))
                    (app_run app w)))"

end
