(* ===== verification/LS_Own.thy ===== *)
theory LS_Own
  imports LS_Main
begin

text \<open>
  Ownership of descriptors and of the signal mask. The balance of a descriptor in a trace is the number
  of times it was opened less the number of times it was closed. The mask in force is \<open>signal_mask\<close>, which
  only an accepted call changes; \<open>mask_back\<close> says that a saved mask is in force again or that the kernel
  refused the call that would have set it. The locale \<open>owner\<close> is the contract
  of a component that acquires descriptors when it is set up and gives them back when it is torn down;
  the notification channel, the ICMP socket and the application that is made of the two are its
  interpretations.
\<close>

section \<open>Accounting of descriptors and the signal mask\<close>

definition fd_open :: "nat \<Rightarrow> world \<Rightarrow> int" where
  "fd_open fd w = int (length (filter (\<lambda>e. e = Open_fd fd) (trace w))) -
     int (length (filter (\<lambda>e. e = Close_fd (int fd)) (trace w)))"

text \<open>The mask \<open>m\<close> is in force again, unless the kernel refused a call that was made to set exactly that
  mask.\<close>

definition mask_back :: "nat set \<Rightarrow> world \<Rightarrow> bool" where
  "mask_back m w \<longleftrightarrow> signal_mask w = m \<or>
     (\<exists>n e. os_sigprocmask (world_os w) n = Some e \<and> Restore_signals m (Some e) \<in> set (trace w))"

definition accounting_neutral :: "effect \<Rightarrow> bool" where
  "accounting_neutral e \<longleftrightarrow> \<not> is_Open_fd e \<and> \<not> is_Close_fd e \<and> \<not> is_Block_signals e \<and> \<not> is_Restore_signals e"

lemma accounting_emit [simp]:
  "fd_open fd (emit e w) = fd_open fd w + (if e = Open_fd fd then 1 else 0) - (if e = Close_fd (int fd) then 1 else 0)"
  by (auto simp: fd_open_def)

lemma accounting_tick [simp]: "fd_open fd (w\<lparr>tick := n\<rparr>) = fd_open fd w"
  by (simp add: fd_open_def)

lemma mask_back_simps [simp]:
  "mask_back (signal_mask w) w" "mask_back m (w\<lparr>tick := n\<rparr>) = mask_back m w"
  by (simp_all add: mask_back_def)

lemma mask_back_restore:
  assumes "sys = world_os w"
  shows "mask_back m (emit (Restore_signals m (os_sigprocmask sys n)) w)" "mask_back m (emit (Restore_signals m None) w)"
    "os_sigprocmask sys n = Some e \<Longrightarrow> mask_back m (emit (Restore_signals m (Some e)) w)"
  using assms by (cases "os_sigprocmask sys n"; auto simp: mask_back_def)+

lemma mask_back_later:
  assumes "mask_back m w" "evolves P w w'" "signal_mask w' = signal_mask w"
  shows "mask_back m w'"
  using assms evolves_prefix [OF assms(2)] evolves_os [OF assms(2)] by (auto simp: mask_back_def prefix_def)

lemma accounting_evolves:
  assumes "evolves P w w'" "\<And>e. P e \<Longrightarrow> accounting_neutral e"
  shows "fd_open fd w' = fd_open fd w" "signal_mask w' = signal_mask w" "mask_back m w \<Longrightarrow> mask_back m w'"
proof -
  have F: "filter Q (trace w') = filter Q (trace w)" if "\<And>e. accounting_neutral e \<Longrightarrow> \<not> Q e" for Q
    by (rule evolves_filter [OF assms(1)]) (use assms(2) that in blast)
  have "filter (\<lambda>e. e = Open_fd fd) (trace w') = filter (\<lambda>e. e = Open_fd fd) (trace w)"
    "filter (\<lambda>e. e = Close_fd (int fd)) (trace w') = filter (\<lambda>e. e = Close_fd (int fd)) (trace w)"
    by (rule F, auto simp: accounting_neutral_def)+
  then show "fd_open fd w' = fd_open fd w"
    by (simp add: fd_open_def)
  show "signal_mask w' = signal_mask w"
    by (rule signal_mask_evolves [OF assms(1)]) (use assms(2) in \<open>simp add: accounting_neutral_def\<close>)
  then show "mask_back m w \<Longrightarrow> mask_back m w'"
    using mask_back_later assms(1) by blast
qed

lemma accounting_stderr:
  assumes "evolves is_Stderr w w'"
  shows "fd_open fd w' = fd_open fd w" "signal_mask w' = signal_mask w" "mask_back m w \<Longrightarrow> mask_back m w'"
  by (rule accounting_evolves [OF assms]; auto simp: accounting_neutral_def)+

lemma accounting_log [simp]:
  "fd_open fd (ls_error lg t w) = fd_open fd w" "fd_open fd (ls_warn lg t w) = fd_open fd w"
  "fd_open fd (ls_info lg t w) = fd_open fd w" "fd_open fd (ls_debug lg t w) = fd_open fd w"
  by (rule accounting_stderr(1), auto)+

lemma signal_mask_log [simp]:
  "signal_mask (ls_error lg t w) = signal_mask w" "signal_mask (ls_warn lg t w) = signal_mask w"
  "signal_mask (ls_info lg t w) = signal_mask w" "signal_mask (ls_debug lg t w) = signal_mask w"
  by (rule accounting_stderr(2); auto)+

lemma mask_back_log: "mask_back m w \<Longrightarrow> mask_back m (ls_error lg t w)"
  by (rule accounting_stderr(3) [of w]) auto

section \<open>Owners of descriptors\<close>

definition acquire_effect :: "effect \<Rightarrow> bool" where
  "acquire_effect e =
     (case e of Stderr _ \<Rightarrow> True | Open_fd _ \<Rightarrow> True | Close_fd _ \<Rightarrow> True | Connect _ _ \<Rightarrow> True | Attach_filter _ \<Rightarrow> True
      | _ \<Rightarrow> False)"

lemma acquire_effect_simps [simp]:
  "acquire_effect (Stderr t)" "acquire_effect (Open_fd n)" "acquire_effect (Close_fd i)" "acquire_effect (Connect s n)"
  "acquire_effect (Attach_filter f)" "\<not> acquire_effect (Block_signals b)" "\<not> acquire_effect (Restore_signals m r)"
  by (simp_all add: acquire_effect_def)

locale owner =
  fixes acquire :: "world \<Rightarrow> 'r \<times> 'c \<times> world" and release :: "'c \<Rightarrow> world \<Rightarrow> 'c \<times> world"
    and holds :: "'c \<Rightarrow> nat \<Rightarrow> int" and sound :: "'c \<Rightarrow> bool"
  assumes acquire_sound: "acquire w = (r, c, w') \<Longrightarrow> sound c"
    and acquire_holds: "acquire w = (r, c, w') \<Longrightarrow> fd_open fd w' = fd_open fd w + holds c fd"
    and acquire_effects: "acquire w = (r, c, w') \<Longrightarrow> evolves acquire_effect w w'"
    and release_holds: "release c w = (c', w') \<Longrightarrow> sound c \<Longrightarrow> fd_open fd w' = fd_open fd w - holds c fd"
    and release_sound: "release c w = (c', w') \<Longrightarrow> sound c' \<and> holds c' fd = 0"
    and release_effects: "release c w = (c', w') \<Longrightarrow> evolves is_Close_fd w w'"
begin

lemma acquire_os: "acquire w = (r, c, w') \<Longrightarrow> world_os w' = world_os w"
  by (drule acquire_effects) (rule evolves_os)

lemma acquire_masks: "acquire w = (r, c, w') \<Longrightarrow> signal_mask w' = signal_mask w"
  by (drule acquire_effects, erule signal_mask_evolves) (auto simp: acquire_effect_def split: effect.splits)

lemma release_masks:
  assumes "release c w = (c', w')"
  shows "signal_mask w' = signal_mask w" "mask_back m w \<Longrightarrow> mask_back m w'"
proof -
  note E = release_effects [OF assms]
  show s: "signal_mask w' = signal_mask w"
    by (rule signal_mask_evolves [OF E]) (auto simp: is_Close_fd_def)
  show "mask_back m w \<Longrightarrow> mask_back m w'"
    by (rule mask_back_later [OF _ E s])
qed

text \<open>Whatever happens in between, as long as it is balanced itself, tearing the component down restores the
  balance from before it was set up; tearing it down again changes nothing.\<close>

lemma session_balanced:
  assumes "acquire w = (r, c, v)" "release d v' = (d', w')" "sound c \<Longrightarrow> sound d" "holds d fd = holds c fd"
    "fd_open fd v' = fd_open fd v"
  shows "fd_open fd w' = fd_open fd w"
  using acquire_holds [OF assms(1)] release_holds [OF assms(2)] acquire_sound [OF assms(1)] assms(3-5) by simp

lemma release_twice:
  assumes "release c w = (c', v)" "release c' v' = (c'', w')"
  shows "fd_open fd w' = fd_open fd v'"
  using release_holds [OF assms(2)] release_sound [OF assms(1)] by simp

end

text \<open>A flag and a descriptor, as both socket components keep them.\<close>

definition socket_holds :: "bool \<Rightarrow> int \<Rightarrow> nat \<Rightarrow> int" where
  "socket_holds opened sockfd fd = (if opened \<and> sockfd = int fd then 1 else 0)"

abbreviation notify_holds :: "ls_notify_t \<Rightarrow> nat \<Rightarrow> int" where
  "notify_holds n \<equiv> socket_holds (nt_opened n) (nt_sockfd n)"

abbreviation notify_sound :: "ls_notify_t \<Rightarrow> bool" where
  "notify_sound n \<equiv> nt_opened n \<longrightarrow> 0 \<le> nt_sockfd n"

abbreviation icmp_holds :: "ls_icmp_t \<Rightarrow> nat \<Rightarrow> int" where
  "icmp_holds i \<equiv> socket_holds (icmp_opened i) (icmp_sockfd i)"

abbreviation icmp_sound :: "ls_icmp_t \<Rightarrow> bool" where
  "icmp_sound i \<equiv> icmp_opened i \<longrightarrow> 0 \<le> icmp_sockfd i"

abbreviation icmp_closed :: ls_icmp_t where
  "icmp_closed \<equiv> zero_icmp\<lparr>icmp_sockfd := -1\<rparr>"

lemma ls_notify_init_opened:
  assumes "ls_notify_init w = (r, n, w')"
  shows "r = Inr () \<longleftrightarrow> nt_opened n"
  using assms unfolding ls_notify_init_def
  by (auto simp: Let_def ask_def ls_err_set_def zero_notify_def split: option.splits sum.splits if_splits)

interpretation notify_own: owner ls_notify_init ls_notify_destroy notify_holds notify_sound
proof (unfold_locales, goal_cases)
  case (1 w r c w')
  then show ?case
    unfolding ls_notify_init_def
    by (auto simp: Let_def ask_def ls_err_set_def zero_notify_def split: option.splits sum.splits if_splits)
next
  case (2 w r c w' fd)
  then show ?case
    unfolding ls_notify_init_def
    by (auto simp: Let_def ask_def ls_err_set_def zero_notify_def socket_holds_def split: option.splits sum.splits if_splits)
next
  case (3 w r c w')
  then show ?case
    unfolding ls_notify_init_def
    by (auto simp: Let_def ask_def ls_err_set_def split: option.splits sum.splits if_splits)
qed (auto simp: ls_notify_destroy_def socket_holds_def Let_def split: if_splits)

interpretation icmp_own: owner "ls_icmp_open family icmp_closed" ls_icmp_close icmp_holds icmp_sound for family
proof (unfold_locales, goal_cases)
  case (1 w r c w')
  then show ?case
    unfolding ls_icmp_open_def
    by (auto simp: Let_def ask_def ls_err_set_def zero_icmp_def split: sum.splits if_splits prod.splits)
next
  case (2 w r c w' fd)
  then show ?case
    unfolding ls_icmp_open_def
    by (auto simp: Let_def ask_def ls_err_set_def zero_icmp_def socket_holds_def attach_family_filter_def attach_bpf_filter_def
        split: sum.splits if_splits)
next
  case (3 w r c w')
  then show ?case
    unfolding ls_icmp_open_def
    by (auto simp: Let_def ask_def ls_err_set_def attach_family_filter_def attach_bpf_filter_def split: sum.splits if_splits)
qed (auto simp: ls_icmp_close_def socket_holds_def Let_def split: if_splits)

section \<open>The signal channel\<close>

definition loop_holds :: "app_loop_t \<Rightarrow> nat \<Rightarrow> int" where
  "loop_holds l fd = (if signal_fd l = int fd then 1 else 0)"

lemma destroy_loop_accounting:
  assumes "destroy_loop app w = (app', w')"
  shows "fd_open fd w' = fd_open fd w - loop_holds (app_loop app) fd"
    "if previous_mask_valid (app_loop app) then mask_back (previous_mask (app_loop app)) w' else signal_mask w' = signal_mask w"
    "app_notify app' = app_notify app" "app_icmp app' = app_icmp app" "app_log app' = app_log app"
    "evolves (\<lambda>e. is_Stderr e \<or> is_Close_fd e \<or> is_Restore_signals e) w w'"
  using assms
  by (auto simp: destroy_loop_def ls_loop_destroy_def loop_holds_def Let_def ask_def mask_back_log mask_back_restore(2,3) [OF refl] split: if_splits option.splits)

end
