(* ===== verification/LS_Run.thy ===== *)
theory LS_Run
  imports LS_Monitor LS_Own
begin

text \<open>
  Whole runs of the program. \<open>loop_effect\<close> names what the process may do to the outside while the
  event loop runs, and \<open>frame_inv\<close> what the loop leaves alone: the descriptors it was given, the
  signal mask, the configuration. Together with the laws of start-up and shutdown they give the
  shape of the trace of every run of \<open>ls_main\<close>.
\<close>

section \<open>What the loop may do\<close>

definition loop_effect :: "bool \<Rightarrow> sockaddr_storage \<times> nat \<Rightarrow> effect \<Rightarrow> bool" where
  "loop_effect pow tgt e =
     (case e of
        Stderr _ \<Rightarrow> True
      | Notify_send m _ \<Rightarrow> prefix ''STATUS='' m \<or> m = ''WATCHDOG=1''
      | Echo_send pkt dest dest_len _ \<Rightarrow> (dest, dest_len) = tgt \<and> length pkt = LS_PACKET_SIZE
      | Recv_packet \<Rightarrow> True
      | Spawn path argv envp \<Rightarrow> pow \<and> path = LS_SYSTEMCTL_PATH \<and> argv = SHUTDOWN_ARGV \<and> envp = SHUTDOWN_ENVP
      | Kill_child _ \<Rightarrow> pow
      | Reap_child _ \<Rightarrow> pow
      | _ \<Rightarrow> False)"

text \<open>The same for the loop of an application, once it is set up.\<close>

abbreviation run_effect :: "app_t \<Rightarrow> effect \<Rightarrow> bool" where
  "run_effect a \<equiv> loop_effect (poweroff (app_config a)) (app_dest a, app_dest_len a)"

definition fd_sources :: "app_fd_cb pollfd list \<Rightarrow> (int \<times> app_fd_cb ls_fd_cb_t \<times> bool) list" where
  "fd_sources ps = map (\<lambda>p. (poll_fd p, fd_cb p, fd_critical p)) ps"

definition same_channels :: "app_t \<Rightarrow> app_t \<Rightarrow> bool" where
  "same_channels a b \<longleftrightarrow>
     app_config b = app_config a \<and> app_log b = app_log a \<and> app_dest b = app_dest a \<and> app_dest_len b = app_dest_len a \<and> app_identifier b = app_identifier a \<and>
     fd_sources (fds (app_loop b)) = fd_sources (fds (app_loop a)) \<and> signal_cb (app_loop b) = signal_cb (app_loop a) \<and>
     watchdog_usec (app_notify b) = watchdog_usec (app_notify a) \<and>
     nt_opened (app_notify b) = nt_opened (app_notify a) \<and> nt_sockfd (app_notify b) = nt_sockfd (app_notify a) \<and>
     icmp_family (app_icmp b) = icmp_family (app_icmp a) \<and>
     icmp_opened (app_icmp b) = icmp_opened (app_icmp a) \<and> icmp_sockfd (app_icmp b) = icmp_sockfd (app_icmp a) \<and>
     signal_fd (app_loop b) = signal_fd (app_loop a) \<and>
     previous_mask_valid (app_loop b) = previous_mask_valid (app_loop a) \<and>
     previous_mask (app_loop b) = previous_mask (app_loop a) \<and>
     ping_timer b = ping_timer a \<and> reply_timer b = reply_timer a"

definition frame_inv :: "app_t \<Rightarrow> world \<Rightarrow> app_t \<Rightarrow> world \<Rightarrow> bool" where
  "frame_inv a0 w0 a w \<longleftrightarrow>
     ping_timer a0 \<noteq> reply_timer a0 \<and> same_channels a0 a \<and> lp_exit_code (app_loop a) \<in> {LS_EXIT_SUCCESS, LS_EXIT_FAILURE} \<and>
     evolves (run_effect a0) w0 w"

lemma effect_loop:
  "drain_effect e \<Longrightarrow> loop_effect pow tgt e" "quiet e \<Longrightarrow> loop_effect pow tgt e" "is_Stderr e \<Longrightarrow> loop_effect pow tgt e"
  "send_effect tgt e \<Longrightarrow> loop_effect pow tgt e" "action_effect e \<Longrightarrow> pow \<Longrightarrow> loop_effect pow tgt e"
  "is_Stderr e \<or> (\<exists>b. e = Notify_send ''WATCHDOG=1'' b) \<Longrightarrow> loop_effect pow tgt e"
  by (cases e; auto simp: loop_effect_def drain_effect_def quiet_def send_effect_def action_effect_def)+

lemma loop_evolves:
  "evolves drain_effect w w' \<Longrightarrow> evolves (loop_effect pow tgt) w w'" "evolves quiet w w' \<Longrightarrow> evolves (loop_effect pow tgt) w w'"
  "evolves is_Stderr w w' \<Longrightarrow> evolves (loop_effect pow tgt) w w'" "evolves (send_effect tgt) w w' \<Longrightarrow> evolves (loop_effect pow tgt) w w'"
  "evolves (\<lambda>e. is_Stderr e \<or> (\<exists>b. e = Notify_send ''WATCHDOG=1'' b)) w w' \<Longrightarrow> evolves (loop_effect pow tgt) w w'"
  by (erule evolves_weaken, erule effect_loop)+

lemma attempt_loop: "attempt_trace w w' \<Longrightarrow> pow \<Longrightarrow> evolves (loop_effect pow tgt) w w'"
proof -
  assume a: "attempt_trace w w'" and pow
  have act: "evolves (loop_effect pow tgt) u v" if "evolves action_effect u v" for u v
    using evolves_weaken [OF that, of "loop_effect pow tgt"] effect_loop(5) \<open>pow\<close> by blast
  from a consider "evolves is_Stderr w w'"
    | v where "evolves is_Stderr w v" "evolves action_effect (emit (Spawn LS_SYSTEMCTL_PATH SHUTDOWN_ARGV SHUTDOWN_ENVP) v) w'"
    by (auto simp: attempt_trace_def)
  then show ?thesis
  proof cases
    case 1
    then show ?thesis by (rule loop_evolves)
  next
    case 2
    have "evolves (loop_effect pow tgt) w (emit (Spawn LS_SYSTEMCTL_PATH SHUTDOWN_ARGV SHUTDOWN_ENVP) v)"
      using loop_evolves(3) [OF 2(1), of pow tgt] \<open>pow\<close> by (auto simp: loop_effect_def)
    with act [OF 2(2)] show ?thesis by (rule evolves_trans [rotated])
  qed
qed

lemma fd_sources_revents [simp]: "fd_sources (set_revents rs ps) = fd_sources ps"
  by (rule nth_equalityI) (simp_all add: fd_sources_def set_revents_def nth_enumerate_eq)

lemma same_channels_core: "same_channels a b = same_channels a (core b)"
  by (simp add: same_channels_def)

lemma same_channels_reset [simp]: "same_channels a (probe_reset b) = same_channels a b"
  by (simp add: same_channels_def probe_reset_def Let_def)

lemma same_channels_stop [simp]: "same_channels a (app_stop code b) = same_channels a b"
  by (simp add: same_channels_def)

lemma same_channels_upd [simp]: "same_channels a (upd_timer f i b) = same_channels a b"
  by (simp add: same_channels_def)

lemma same_channels_fields [simp]:
  "same_channels a (b\<lparr>consecutive_fails := n\<rparr>) = same_channels a b"
  "same_channels a (b\<lparr>app_stats := s\<rparr>) = same_channels a b"
  "same_channels a (b\<lparr>probe_sent_ns := t\<rparr>) = same_channels a b"
  "same_channels a (b\<lparr>probe_sequence := q\<rparr>) = same_channels a b"
  "same_channels a (b\<lparr>watchdog_last_failed := f\<rparr>) = same_channels a b"
  "icmp_sockfd i = icmp_sockfd (app_icmp b) \<Longrightarrow> icmp_opened i = icmp_opened (app_icmp b) \<Longrightarrow>
     icmp_family i = icmp_family (app_icmp b) \<Longrightarrow> same_channels a (b\<lparr>app_icmp := i\<rparr>) = same_channels a b"
  by (simp_all add: same_channels_def)

text \<open>Two ways to extend a frame: to a state with the policy fields of an explicit one, and through
  the threshold check.\<close>

lemma frame_core:
  assumes "frame_inv a0 w0 a w" "core a' = core b" "same_channels a0 b"
    "lp_exit_code (app_loop b) \<in> {LS_EXIT_SUCCESS, LS_EXIT_FAILURE}"
    "evolves (run_effect a0) w w'"
  shows "frame_inv a0 w0 a' w'"
proof -
  have "same_channels a0 a'" using assms(2,3) same_channels_core by metis
  moreover have "app_loop a' = app_loop b" using assms(2) by (metis core_select(6))
  ultimately show ?thesis
    using assms(1,4,5) evolves_trans unfolding frame_inv_def by metis
qed

lemma frame_threshold:
  assumes "frame_inv a0 w0 b v" "check_threshold b v = (a', w')"
  shows "frame_inv a0 w0 a' w'"
proof -
  have cfg: "app_config b = app_config a0" using assms(1) by (simp add: frame_inv_def same_channels_def)
  have ch: "same_channels a0 b" using assms(1) by (simp add: frame_inv_def)
  from assms(2) have "(a' = b \<or> a' = app_stop LS_EXIT_SUCCESS b) \<and> evolves (run_effect a0) v w'"
    by (cases rule: check_threshold_cases) (auto intro: loop_evolves attempt_loop simp: cfg)
  then show ?thesis
    using assms(1) ch frame_core [OF assms(1), of a' a' w'] by (auto simp: frame_inv_def)
qed

section \<open>Callbacks keep the frame\<close>

lemma drain_frame:
  assumes F: "frame_inv a0 w0 a w" and "drain_loop n a w = (m, a', w')"
  shows "frame_inv a0 w0 a' w'"
proof -
  have ch: "same_channels a0 a" "lp_exit_code (app_loop a) \<in> {LS_EXIT_SUCCESS, LS_EXIT_FAILURE}"
    using F by (simp_all add: frame_inv_def)
  from assms(2) show ?thesis
  proof (cases rule: drain_loop_cases)
    case none
    show ?thesis by (rule frame_core [OF F none(2) ch loop_evolves(1) [OF none(3)]])
  next
    case fail
    show ?thesis
      by (rule frame_core [OF F _ _ _ loop_evolves(1) [OF fail(3)], where b = "app_stop LS_EXIT_FAILURE (probe_reset a)"])
        (use fail(2) ch in simp_all)
  next
    case (hit lat)
    show ?thesis
      by (rule frame_core [OF F _ _ _ loop_evolves(1) [OF hit(5)], where b = "(probe_reset a)\<lparr>consecutive_fails := 0,
            app_stats := ls_stats_add_ok lat (app_stats a)\<rparr>"])
        (use hit(4) ch in simp_all)
  qed
qed

lemma on_reply_frame:
  assumes F: "frame_inv a0 w0 a w" and run: "\<not> stopping (app_loop a)" and "on_reply_timer a w = (a', w')"
  shows "frame_inv a0 w0 a' w'"
proof -
  have ch: "same_channels a0 a" "lp_exit_code (app_loop a) \<in> {LS_EXIT_SUCCESS, LS_EXIT_FAILURE}"
    using F by (simp_all add: frame_inv_def)
  from assms(3) run show ?thesis
  proof (cases rule: on_reply_timer_cases)
    case fatal
    show ?thesis
      by (rule frame_core [OF F _ _ _ loop_evolves(1) [OF fatal(2)], where b = "app_stop LS_EXIT_FAILURE (probe_reset a)"])
        (use fatal(1) ch in simp_all)
  next
    case (hit lat)
    show ?thesis
      by (rule frame_core [OF F _ _ _ loop_evolves(1) [OF hit(3)], where b = "(probe_reset a)\<lparr>consecutive_fails := 0,
            app_stats := ls_stats_add_ok lat (app_stats a)\<rparr>"])
        (use hit(4) ch in simp_all)
  next
    case (timeout b v)
    have "frame_inv a0 w0 b v"
      by (rule frame_core [OF F _ _ _ loop_evolves(1) [OF timeout(1)], where b = "(probe_reset a)\<lparr>consecutive_fails :=
            consecutive_fails a + 1, app_stats := ls_stats_add_fail (app_stats a)\<rparr>"])
        (use timeout(3) ch in simp_all)
    then show ?thesis using timeout(2) by (rule frame_threshold)
  qed
qed

lemma on_ping_frame:
  assumes F: "frame_inv a0 w0 a w" and "on_ping_timer a w = (a', w')"
  shows "frame_inv a0 w0 a' w'"
proof -
  have ch: "same_channels a0 a" "lp_exit_code (app_loop a) \<in> {LS_EXIT_SUCCESS, LS_EXIT_FAILURE}"
    using F by (simp_all add: frame_inv_def)
  have tgt: "(app_dest a0, app_dest_len a0) = (app_dest a, app_dest_len a)"
    using ch by (simp add: same_channels_def)
  have "ping_timer a \<noteq> reply_timer a" using F by (simp add: frame_inv_def same_channels_def)
  with assms(2) show ?thesis
  proof (cases rule: on_ping_timer_cases)
    case busy
    show ?thesis
      by (rule frame_core [OF F refl]) (use busy ch in simp_all)
  next
    case (fatal ic)
    show ?thesis
      by (rule frame_core [OF F _ _ _ loop_evolves(4) [OF fatal(6) [folded tgt]], where b = "app_stop LS_EXIT_FAILURE
          ((upd_timer (ls_timer_step (interval_ms (app_config a)) (now_ms (app_loop a))) (ping_timer a) a)\<lparr>app_icmp := ic\<rparr>)"])
        (use fatal(2-5) ch in simp_all)
  next
    case (refused ic pkt e v b)
    have "evolves (run_effect a0) w (emit (Echo_send pkt (app_dest a) (app_dest_len a) (Inl e)) (w\<lparr>tick := Suc (tick w)\<rparr>))"
      using refused(6) tgt by (auto simp: loop_effect_def)
    then have ev: "evolves (run_effect a0) w v"
      using loop_evolves(2) [OF refused(7)] by (rule evolves_trans)
    have "frame_inv a0 w0 b v"
      by (rule frame_core [OF F _ _ _ ev, where b = "(upd_timer (ls_timer_step (interval_ms (app_config a))
            (now_ms (app_loop a))) (ping_timer a) a)\<lparr>app_icmp := ic, consecutive_fails := consecutive_fails a + 1,
            app_stats := ls_stats_add_fail (app_stats a)\<rparr>"])
        (use refused(3-5,9) ch in simp_all)
    then show ?thesis using refused(8) by (rule frame_threshold)
  next
    case (sent ic pkt t)
    have "evolves (run_effect a0) w w'"
      unfolding sent(7) using sent(5) tgt by (auto simp: loop_effect_def)
    then show ?thesis
      by (rule frame_core [OF F refl, rotated 2]) (use sent(2-4,8) ch in simp_all)
  qed
qed

interpretation app_frame: loop_client app_client "frame_inv a0 w0" for a0 w0
proof
  fix a w l w' assume F: "frame_inv a0 w0 a w" and r: "refresh_now (cl_loop app_client a) w = (True, l, w')"
  obtain t where l: "l = (app_loop a)\<lparr>now_ms := t\<rparr>" using refresh_now_loop [OF r] by auto
  show "frame_inv a0 w0 (cl_set_loop app_client l a) w'"
    by (rule frame_core [OF F refl _ _ loop_evolves(3) [OF refresh_now_evolves [OF r]]])
      (use F in \<open>simp_all add: l frame_inv_def same_channels_def set_app_loop_def\<close>)
next
  show "frame_inv a0 w0 (cl_set_loop app_client (ls_loop_stop LS_EXIT_FAILURE (cl_loop app_client a)) a) w"
    if "frame_inv a0 w0 a w" for a w
    using that by (simp add: frame_inv_def same_channels_def set_app_loop_def ls_loop_stop_def)
next
  show "frame_inv a0 w0 (cl_set_loop app_client ((cl_loop app_client a)\<lparr>fds := set_revents rs (fds (cl_loop app_client a))\<rparr>) a) w"
    if "frame_inv a0 w0 a w" for a w rs
    using that by (simp add: frame_inv_def same_channels_def set_app_loop_def)
next
  show "frame_inv a0 w0 a w'" if "frame_inv a0 w0 a w" "evolves is_Stderr w w'" for a w w'
    using that evolves_trans loop_evolves(3) [OF that(2)] by (auto simp: frame_inv_def)
next
  fix a w i a' w' assume F: "frame_inv a0 w0 a w" and run: "\<not> stopping (cl_loop app_client a)"
    and cb: "cl_timer_cb app_client (timer_cb (timers (cl_loop app_client a) ! i)) a w = (a', w')"
  show "frame_inv a0 w0 a' w'"
  proof (cases "timer_cb (timers (app_loop a) ! i)")
    case On_watchdog_timer
    with cb have wd: "on_watchdog_timer a w = (a', w')" by simp
    show ?thesis
      by (rule frame_core [OF F refl _ _ loop_evolves(5) [OF on_watchdog_timer_frame(2) [OF wd]]])
        (use on_watchdog_timer_frame(1) [OF wd] F in \<open>auto simp: frame_inv_def\<close>)
  qed (use cb run on_reply_frame [OF F] on_ping_frame [OF F] in simp_all)
next
  show "frame_inv a0 w0 a' w'" if "frame_inv a0 w0 a w" "cl_fd_cb app_client f (poll_fd p) a w = (a', w')" for a w p f a' w'
    using that drain_frame [OF that(1)]
    by (auto simp: on_icmp_readable_def drain_and_match_reply_def split: prod.splits)
next
  fix a w s n a' w' assume F: "frame_inv a0 w0 a w" and "cl_signal_cb app_client s n a w = (a', w')"
  then have "(a' = a \<or> a' = app_stop LS_EXIT_SUCCESS a) \<and> evolves is_Stderr w w'"
    using log_statistics_evolves by (auto simp: on_signal_def split: if_splits)
  then show "frame_inv a0 w0 a' w'"
    using F frame_core [OF F refl, of a' w'] loop_evolves(3) by (auto simp: frame_inv_def)
qed

end
