(* ===== verification/LS_Start.thy ===== *)
theory LS_Start
  imports LS_Run
begin

text \<open>
  Start-up and shutdown of the daemon as its environment sees them: which descriptors and signal
  masks \<^verbatim>\<open>app_init\<close>, \<^verbatim>\<open>app_run\<close> and \<^verbatim>\<open>main\<close> acquire and release, what
  they may do to the outside before the first probe, and the state in which the event loop starts.
\<close>

section \<open>Start-up\<close>

definition setup_effect :: "effect \<Rightarrow> bool" where
  "setup_effect e =
     (case e of Stderr _ \<Rightarrow> True | Open_fd _ \<Rightarrow> True | Close_fd _ \<Rightarrow> True | Connect _ _ \<Rightarrow> True | Attach_filter _ \<Rightarrow> True
      | Block_signals _ \<Rightarrow> True | Restore_signals _ _ \<Rightarrow> True | _ \<Rightarrow> False)"

lemma setup_effect_simps [simp]:
  "setup_effect (Stderr t)" "setup_effect (Open_fd n)" "setup_effect (Close_fd i)" "setup_effect (Connect s n)"
  "setup_effect (Attach_filter f)" "setup_effect (Block_signals b)" "setup_effect (Restore_signals m r)"
  by (simp_all add: setup_effect_def)

text \<open>The loop as \<^verbatim>\<open>app_run\<close> wires it: the signal channel and the ICMP socket, then the watchdog,
  reply and ping timers, all disarmed; \<open>m\<close> is the signal mask from before.\<close>

definition wired_loop :: "nat set \<Rightarrow> ls_log_t \<Rightarrow> nat \<Rightarrow> int \<Rightarrow> app_loop_t" where
  "wired_loop m lg fd icmp_fd =
     (ls_loop_init lg)\<lparr>
       fds := [\<lparr>poll_fd = int fd, poll_revents = 0, fd_cb = Dispatch_signal_fd, fd_critical = True\<rparr>,
               \<lparr>poll_fd = icmp_fd, poll_revents = 0, fd_cb = Fd_cb On_icmp_readable, fd_critical = False\<rparr>],
       timers := [\<lparr>deadline_ms = UINT64_MAX, timer_cb = On_watchdog_timer\<rparr>,
                  \<lparr>deadline_ms = UINT64_MAX, timer_cb = On_reply_timer\<rparr>,
                  \<lparr>deadline_ms = UINT64_MAX, timer_cb = On_ping_timer\<rparr>],
       signal_fd := int fd, previous_mask := m, previous_mask_valid := True, signal_cb := Some On_signal\<rparr>"

lemma wire_loop_cases:
  assumes "wire_loop (app\<lparr>app_loop := ls_loop_init lg\<rparr>) w = (r, app', w')" and "0 \<le> icmp_sockfd (app_icmp app)"
  obtains (failed) e where "r = Inl e" "\<exists>m. app' = app\<lparr>app_loop := (ls_loop_init lg)\<lparr>previous_mask := m\<rparr>\<rparr>" "evolves setup_effect w w'"
      "\<And>fd. fd_open fd w' = fd_open fd w" "mask_back (signal_mask w) w'"
  | (wired) fd where "r = Inr ()"
      "app' = app\<lparr>app_loop := wired_loop (signal_mask w) lg fd (icmp_sockfd (app_icmp app)), watchdog_timer := 0, reply_timer := 1, ping_timer := 2\<rparr>"
      "evolves setup_effect w w'" "\<And>n. fd_open n w' = fd_open n w + (if n = fd then 1 else 0)"
proof (cases r)
  case (Inl e)
  show ?thesis
    by (rule failed [OF Inl])
      (use assms Inl in \<open>auto simp: mask_back_restore(1) wire_loop_def ls_loop_watch_signals_def ls_loop_add_fd_def ls_loop_add_timer_def
        ls_loop_init_def LS_LOOP_MAX_FDS_def LS_LOOP_MAX_TIMERS_def ls_err_set_def Let_def ask_def
        split: option.splits sum.splits\<close>)
next
  case (Inr u)
  note wire_defs = wire_loop_def ls_loop_watch_signals_def ls_loop_add_fd_def ls_loop_add_timer_def
    ls_loop_init_def LS_LOOP_MAX_FDS_def LS_LOOP_MAX_TIMERS_def ls_err_set_def Let_def ask_def wired_loop_def
    ls_timer_disarm_def
  from Inr obtain fd where ok: "os_sigprocmask (world_os w) (tick w) = None" "os_signalfd (world_os w) (Suc (tick w)) = Inr fd"
    using assms by (auto simp: wire_defs split: option.splits sum.splits)
  have fd: "app' = app\<lparr>app_loop := wired_loop (signal_mask w) lg fd (icmp_sockfd (app_icmp app)), watchdog_timer := 0, reply_timer := 1, ping_timer := 2\<rparr>"
    "w' = emit (Open_fd fd) ((emit (Block_signals WATCHED_SIGNALS) (w\<lparr>tick := Suc (tick w)\<rparr>))\<lparr>tick := Suc (Suc (tick w))\<rparr>)"
    using assms ok by (cases app; simp add: wire_defs numeral_2_eq_2)+
  show ?thesis
    by (rule wired [OF _ fd(1)]) (use Inr in \<open>auto simp: fd(2)\<close>)
qed

text \<open>Success of \<^verbatim>\<open>app_init\<close> leaves an idle application with both channels open; whatever its
  outcome, exactly the descriptors its state records are open.\<close>

lemma app_init_opened:
  assumes "app_init config w = (r, app, w')" and "ls_addr_parse (world_os w) (Some (target config)) = Inr (dest, len)"
    and lg: "lg = ls_log_init (log_level config)"
    and v: "v = (if log_level config = LS_LOG_DEBUG then ls_config_dump config lg w else w)"
    and n: "ls_notify_init v = (Inr (), n, v2)"
    and i: "ls_icmp_open (ss_family dest) icmp_closed v2 = (Inr (), i, v3)"
  obtains x where "r = Inr ()" "evolves is_Stderr v3 w'" "app_notify app = n" "app_icmp app = i" "app_config app = config"
    "app_log app = ls_log_init (log_level config)" "consecutive_fails app = 0" "probe_sequence app = 0"
    "app_stats app = fst (ls_stats_init x)" "app_dest app = dest" "app_dest_len app = len"
    "app_identifier app = make_identifier (os_getpid (world_os w))"
proof -
  note body = assms(1) [unfolded app_init_def Let_def assms(2) prod.case sum.case zero_app_def app_t.update_convs
      app_t.select_convs lg [symmetric] v [symmetric] n i]
  define x where "x = (case bpf_errno i of
      Some e \<Rightarrow> ls_warn lg (''ICMP BPF filter unavailable for '' @ family_name (ss_family dest) @
        '' traffic: '' @ os_strerror (world_os w) e @ ''; continuing without kernel-side packet filtering'') v3
    | None \<Rightarrow> ls_debug lg (''ICMP BPF filter active for '' @ family_name (ss_family dest) @ '' traffic'') v3)"
  have x: "evolves is_Stderr v3 x" by (auto simp: x_def split: option.split)
  obtain st y where s: "ls_stats_init x = (st, y)" by (metis surj_pair)
  have y: "y = x\<lparr>tick := Suc (tick x)\<rparr>"
    using s by (auto simp: ls_stats_init_def Let_def dest!: ls_now_ms_D split: prod.splits)
  have fin: "r = Inr ()" "app_notify app = n" "app_icmp app = i" "app_config app = config" "app_log app = lg"
      "consecutive_fails app = 0" "probe_sequence app = 0" "app_stats app = st" "evolves is_Stderr y w'"
      "app_dest app = dest" "app_dest_len app = len" "app_identifier app = make_identifier (os_getpid (world_os w))"
    using body [folded x_def, unfolded s prod.case] by auto
  have "evolves is_Stderr x y" by (auto simp: y)
  then have xw: "evolves is_Stderr x w'" using fin(9) by (rule evolves_trans)
  show ?thesis
    by (rule that [of x, OF fin(1) evolves_trans [OF x xw]]) (use fin s lg in simp_all)
qed

lemma app_init_stages:
  assumes "app_init config w = (r, app, w')"
  obtains (addr) e where "ls_addr_parse (world_os w) (Some (target config)) = Inl e" "r = Inl e"
      "app_notify app = zero_notify\<lparr>nt_sockfd := -1\<rparr>" "app_icmp app = icmp_closed" "evolves is_Stderr w w'"
  | (notify) e v where "r = Inl e" "evolves is_Stderr w v" "ls_notify_init v = (Inl e, app_notify app, w')"
      "app_icmp app = icmp_closed"
  | (icmp) e v v2 dest len where "r = Inl e" "evolves is_Stderr w v" "ls_notify_init v = (Inr (), app_notify app, v2)"
      "ls_icmp_open (ss_family dest) icmp_closed v2 = (Inl e, app_icmp app, w')"
      "ls_addr_parse (world_os w) (Some (target config)) = Inr (dest, len)"
  | (ready) v v2 v3 v4 dest len where "r = Inr ()" "evolves is_Stderr w v" "ls_notify_init v = (Inr (), app_notify app, v2)"
      "ls_icmp_open (ss_family dest) icmp_closed v2 = (Inr (), app_icmp app, v3)" "evolves is_Stderr v3 w'"
      "app_config app = config" "app_log app = ls_log_init (log_level config)" "consecutive_fails app = 0"
      "probe_sequence app = 0" "app_stats app = fst (ls_stats_init v4)"
      "ls_addr_parse (world_os w) (Some (target config)) = Inr (dest, len)" "app_dest app = dest"
      "app_identifier app = make_identifier (os_getpid (world_os w))" "app_dest_len app = len"
proof -
  define lg where "lg = ls_log_init (log_level config)"
  define v where "v = (if log_level config = LS_LOG_DEBUG then ls_config_dump config lg w else w)"
  have e1: "evolves is_Stderr w v" by (auto simp: v_def)
  obtain rn n v2 where n: "ls_notify_init v = (rn, n, v2)" by (metis prod_cases3)
  note n' = n [unfolded v_def lg_def]
  show ?thesis
  proof (cases "ls_addr_parse (world_os w) (Some (target config))")
    case (Inl e)
    show ?thesis
      by (rule addr [of e]) (use assms Inl e1 in \<open>auto simp: app_init_def Let_def v_def lg_def cong: if_cong\<close>)
  next
    case (Inr p)
    obtain dest len where p: "p = (dest, len)" by (cases p)
    obtain ri i v3 where i: "ls_icmp_open (ss_family dest) icmp_closed v2 = (ri, i, v3)" by (metis prod_cases3)
    consider (n) e where "rn = Inl e" | (i) e where "rn = Inr ()" "ri = Inl e" | (ok) "rn = Inr ()" "ri = Inr ()"
      by (metis old.sum.exhaust old.unit.exhaust)
    then show ?thesis
    proof cases
      case c: n
      show ?thesis
        by (rule notify [of e, OF _ e1]) (use assms Inr p n n' c in \<open>auto simp: app_init_def Let_def v_def lg_def cong: if_cong\<close>)
    next
      case c: i
      show ?thesis
        by (rule icmp [of e, OF _ e1]) (use assms Inr p n n' i c in \<open>auto simp: app_init_def Let_def v_def lg_def cong: if_cong\<close>)
    next
      case ok
      show ?thesis
        by (rule app_init_opened [OF assms Inr [unfolded p] lg_def v_def n [unfolded ok] i [unfolded ok]])
          (rule ready [of v v2 dest v3 _ len], use n i ok e1 Inr p in simp_all)
    qed
  qed
qed

lemma acquire_setup: "evolves acquire_effect w w' \<Longrightarrow> evolves setup_effect w w'"
  by (erule evolves_weaken) (auto simp: acquire_effect_def setup_effect_def split: effect.splits)

lemma acquire_stderr: "evolves is_Stderr w w' \<Longrightarrow> evolves acquire_effect w w'"
  by (erule evolves_weaken) (auto simp: acquire_effect_def split: effect.split)

definition app_holds :: "app_t \<Rightarrow> nat \<Rightarrow> int" where
  "app_holds app fd = notify_holds (app_notify app) fd + icmp_holds (app_icmp app) fd"

definition app_sound :: "app_t \<Rightarrow> bool" where
  "app_sound app \<longleftrightarrow> notify_sound (app_notify app) \<and> icmp_sound (app_icmp app)"

lemma app_init_owns:
  assumes "app_init config w = (r, app, w')"
  shows "app_sound app \<and> fd_open fd w' = fd_open fd w + app_holds app fd \<and> evolves acquire_effect w w'"
  using assms
proof (cases rule: app_init_stages)
  case (addr e)
  then show ?thesis
    using accounting_stderr(1) [OF addr(5)] acquire_stderr
    by (simp add: app_holds_def app_sound_def socket_holds_def zero_icmp_def zero_notify_def)
next
  case (notify e v)
  have "evolves acquire_effect w w'"
    by (rule evolves_trans [OF acquire_stderr [OF notify(2)] notify_own.acquire_effects [OF notify(3)]])
  then show ?thesis
    using accounting_stderr(1) [OF notify(2)] notify_own.acquire_holds [OF notify(3)] notify_own.acquire_sound [OF notify(3)] notify(4)
    by (simp add: app_holds_def app_sound_def socket_holds_def zero_icmp_def)
next
  case (icmp e v v2 dest len)
  have "evolves acquire_effect w w'"
    by (rule evolves_trans [OF evolves_trans [OF acquire_stderr [OF icmp(2)] notify_own.acquire_effects [OF icmp(3)]]
      icmp_own.acquire_effects [OF icmp(4)]])
  then show ?thesis
    using accounting_stderr(1) [OF icmp(2)] notify_own.acquire_holds [OF icmp(3)] notify_own.acquire_sound [OF icmp(3)]
      icmp_own.acquire_holds [OF icmp(4)] icmp_own.acquire_sound [OF icmp(4)]
    by (simp add: app_holds_def app_sound_def)
next
  case (ready v v2 v3 v4 dest len)
  have "evolves acquire_effect w v3"
    by (rule evolves_trans [OF evolves_trans [OF acquire_stderr [OF ready(2)] notify_own.acquire_effects [OF ready(3)]]
      icmp_own.acquire_effects [OF ready(4)]])
  then have "evolves acquire_effect w w'" by (rule evolves_trans [OF _ acquire_stderr [OF ready(5)]])
  then show ?thesis
    using accounting_stderr(1) [OF ready(2)] notify_own.acquire_holds [OF ready(3)] notify_own.acquire_sound [OF ready(3)]
      icmp_own.acquire_holds [OF ready(4)] icmp_own.acquire_sound [OF ready(4)] accounting_stderr(1) [OF ready(5)]
    by (simp add: app_holds_def app_sound_def)
qed

text \<open>The application owns what its two channels own.\<close>

interpretation app_own: owner "app_init config" app_destroy app_holds app_sound for config
proof (unfold_locales, goal_cases)
  case (4 app w app' w' fd)
  obtain n v where n: "ls_notify_destroy (app_notify app) w = (n, v)" by (metis surj_pair)
  obtain i v' where i: "ls_icmp_close (app_icmp app) v = (i, v')" by (metis surj_pair)
  have "w' = v'" using 4(1) by (simp add: app_destroy_def n i)
  with notify_own.release_holds [OF n] icmp_own.release_holds [OF i] 4(2) show ?case
    by (simp add: app_holds_def app_sound_def)
next
  case (6 app w app' w')
  obtain n v where n: "ls_notify_destroy (app_notify app) w = (n, v)" by (metis surj_pair)
  obtain i v' where i: "ls_icmp_close (app_icmp app) v = (i, v')" by (metis surj_pair)
  have "w' = v'" using 6 by (simp add: app_destroy_def n i)
  with evolves_trans [OF notify_own.release_effects [OF n] icmp_own.release_effects [OF i]] show ?case by simp
qed (use app_init_owns in \<open>auto simp: app_destroy_def app_holds_def app_sound_def socket_holds_def zero_app_def
  zero_notify_def zero_icmp_def split: prod.splits\<close>)

text \<open>The loop object when the loop starts: watchdog and ping timers armed, reply timer idle.\<close>

definition started_loop :: "nat set \<Rightarrow> app_t \<Rightarrow> nat \<Rightarrow> u64 \<Rightarrow> app_loop_t" where
  "started_loop m app fd now =
     (let l = wired_loop m (app_log app) fd (icmp_sockfd (app_icmp app)); wd = ls_notify_watchdog_interval_ms (app_notify app)
      in l\<lparr>timers := [if wd > 0 then ls_timer_arm_after now wd (timers l ! 0) else timers l ! 0, timers l ! 1,
            ls_timer_arm_after now (start_delay_ms (app_config app)) (timers l ! 2)]\<rparr>)"

text \<open>\<^verbatim>\<open>log_startup\<close> with its texts left open.\<close>

lemma log_startup_form:
  "\<exists>t0 t1 t2. log_startup app w =
     (let (ready, w) = ls_notify_ready (app_notify app) (ls_info (app_log app) t0 w)
      in if \<not> ready then (False, app, ls_error (app_log app) ''Failed to send systemd READY notification'' w)
         else let (app, w) = (if start_delay_ms (app_config app) = 0 then app_statusf t1 app w else app_statusf t2 app w)
              in (True, app, w))"
  unfolding log_startup_def Let_def by (intro exI) (rule refl)

lemma log_startup_cases:
  assumes "log_startup app w = (ok, app', w')"
  obtains (failed) "\<not> ok" "app' = app" "evolves (\<lambda>e. is_Stderr e \<or> e = Notify_send ''READY=1'' False) w w'"
  | (ready) u where "ok" "core app' = core app" "evolves is_Stderr w u"
      "evolves quiet (emit (Notify_send ''READY=1'' True) u) w'"
proof -
  let ?lg = "app_log app"
  obtain t0 t1 t2 where s: "log_startup app w =
      (let (ready, w) = ls_notify_ready (app_notify app) (ls_info ?lg t0 w)
       in if \<not> ready then (False, app, ls_error ?lg ''Failed to send systemd READY notification'' w)
          else let (app, w) = (if start_delay_ms (app_config app) = 0 then app_statusf t1 app w else app_statusf t2 app w)
               in (True, app, w))" using log_startup_form by blast
  define u where "u = (ls_info ?lg t0 w)\<lparr>tick := Suc (tick (ls_info ?lg t0 w))\<rparr>"
  have u: "evolves is_Stderr w u" by (auto simp: u_def)
  obtain sent v where r: "ls_notify_ready (app_notify app) (ls_info ?lg t0 w) = (sent, v)" by (metis surj_pair)
  show ?thesis
  proof (cases sent)
    case False
    have "evolves (\<lambda>e. is_Stderr e \<or> e = Notify_send ''READY=1'' False) w v"
      using r False by (auto simp: ls_notify_ready_def notify_send_def ask_def Let_def split: if_splits)
    then show ?thesis
      by (intro failed) (use assms s r False in auto)
  next
    case True
    then have v: "v = emit (Notify_send ''READY=1'' True) u"
      using r by (auto simp: ls_notify_ready_def notify_send_def ask_def Let_def u_def split: if_splits)
    obtain t where t: "app_statusf t app v = (app', w')" "ok"
      using assms s r True by (auto split: prod.splits if_splits)
    show ?thesis
      using app_statusf_frame [OF t(1)] t(2) u v by (intro ready [of u]) auto
  qed
qed

text \<open>What a start-up that fails may have done: set-up calls, log lines, a READY notification that the
  socket refused.\<close>

definition start_effect :: "effect \<Rightarrow> bool" where
  "start_effect e \<longleftrightarrow> setup_effect e \<or> e = Notify_send ''READY=1'' False"

lemma start_evolves:
  "evolves setup_effect w w' \<Longrightarrow> evolves start_effect w w'"
  "evolves is_Stderr w w' \<Longrightarrow> evolves start_effect w w'"
  "evolves (\<lambda>e. is_Stderr e \<or> e = Notify_send ''READY=1'' False) w w' \<Longrightarrow> evolves start_effect w w'"
  "evolves (\<lambda>e. is_Stderr e \<or> is_Close_fd e \<or> is_Restore_signals e) w w' \<Longrightarrow> evolves start_effect w w'"
  by (erule evolves_weaken; auto simp: start_effect_def setup_effect_def quiet_def split: effect.splits)+

lemma accounting_quiet:
  assumes "evolves quiet w w'"
  shows "fd_open fd w' = fd_open fd w"
  by (rule accounting_evolves(1) [OF assms]) (auto simp: accounting_neutral_def quiet_def split: effect.splits)

lemma accounting_ready:
  assumes "evolves (\<lambda>e. is_Stderr e \<or> e = Notify_send ''READY=1'' False) w w'"
  shows "fd_open fd w' = fd_open fd w"
  by (rule accounting_evolves(1) [OF assms]) (auto simp: accounting_neutral_def)

text \<open>Undoing the wiring after a failure gives back what the wiring took.\<close>

lemma unwire:
  assumes "destroy_loop b v = (app', w')" "signal_fd (app_loop b) = int fd" "previous_mask_valid (app_loop b)"
    "previous_mask (app_loop b) = m" "\<And>n. fd_open n v = fd_open n w + (if n = fd then 1 else 0)" "evolves start_effect w v"
  shows "fd_open n w' = fd_open n w" "mask_back m w'" "evolves start_effect w w'"
    "app_notify app' = app_notify b" "app_icmp app' = app_icmp b" "app_log app' = app_log b"
  using destroy_loop_accounting [OF assms(1)] assms(2-5) evolves_trans [OF assms(6) start_evolves(4)]
  by (simp_all add: loop_holds_def)

text \<open>\<open>app_prepare\<close> once the loop is wired.\<close>

lemma app_prepare_wired:
  assumes "wire_loop (app\<lparr>app_loop := ls_loop_init (app_log app)\<rparr>) w = (Inr (), a1, w1)"
    and a1: "a1 = app\<lparr>app_loop := wired_loop m (app_log app) fd (icmp_sockfd (app_icmp app)), watchdog_timer := 0,
      reply_timer := 1, ping_timer := 2\<rparr>"
  shows "app_prepare app w =
    (let (now, w) = ls_now_ms w1
     in if now = UINT64_MAX
        then let (app, w) = destroy_loop a1 (ls_error (app_log a1) ''Failed to initialize monotonic timing state'' w)
             in (False, app, w)
        else let (ok, app, w) = log_startup (app\<lparr>app_loop := started_loop m app fd now, watchdog_timer := 0, reply_timer := 1,
               ping_timer := 2\<rparr>) w
             in if \<not> ok then (let (app, w) = destroy_loop app w in (False, app, w)) else (True, app, w))"
proof -
  have arm: "(if 0 < ls_notify_watchdog_interval_ms (app_notify app)
      then upd_timer (ls_timer_arm_after now (ls_notify_watchdog_interval_ms (app_notify app))) 0
        (upd_timer (ls_timer_arm_after now (start_delay_ms (app_config app))) 2 a1)
      else upd_timer (ls_timer_arm_after now (start_delay_ms (app_config app))) 2 a1) =
    app\<lparr>app_loop := started_loop m app fd now, watchdog_timer := 0, reply_timer := 1, ping_timer := 2\<rparr>" for now
    by (cases app) (simp add: a1 upd_timer_def Let_def wired_loop_def started_loop_def)
  have sel: "app_notify a1 = app_notify app" "app_config a1 = app_config app" "ping_timer a1 = 2" "watchdog_timer a1 = 0"
    by (simp_all add: a1)
  show ?thesis
    unfolding app_prepare_def Let_def assms(1) prod.case sum.case upd_timer_select sel arm ..
qed

lemma app_prepare_unwired:
  assumes "app_prepare app w = (ok, app', w')" and a1: "a1 = app\<lparr>app_loop := (ls_loop_init (app_log app))\<lparr>previous_mask := m\<rparr>\<rparr>"
    and wl: "wire_loop (app\<lparr>app_loop := ls_loop_init (app_log app)\<rparr>) w = (Inl e, a1, w1)"
    and w1: "evolves setup_effect w w1" "\<And>n. fd_open n w1 = fd_open n w" "mask_back (signal_mask w) w1"
  shows "\<not> ok" "app_notify app' = app_notify app" "app_icmp app' = app_icmp app" "app_log app' = app_log app"
    "evolves start_effect w w'" "fd_open n w' = fd_open n w" "mask_back (signal_mask w) w'"
proof -
  let ?v = "ls_error (app_log a1) (''Failed to set up event loop: '' @ e) w1"
  have d: "destroy_loop a1 ?v = (app', w')" and ok: "\<not> ok"
    using assms(1) wl by (auto simp: app_prepare_def a1 split: prod.splits)
  note D = destroy_loop_accounting [OF d]
  show "\<not> ok" by (rule ok)
  show "evolves start_effect w w'"
    by (rule evolves_trans [OF _ start_evolves(4) [OF D(6)]])
      (use start_evolves(1) [OF w1(1)] in \<open>auto simp: start_effect_def\<close>)
  show "app_notify app' = app_notify app" "app_icmp app' = app_icmp app" "app_log app' = app_log app"
    "fd_open n w' = fd_open n w"
    using D w1(2) by (simp_all add: a1 loop_holds_def ls_loop_init_def)
  show "mask_back (signal_mask w) w'"
    by (rule mask_back_later [OF mask_back_log [OF w1(3)] D(6)]) (use D(2) in \<open>simp add: a1 ls_loop_init_def\<close>)
qed

text \<open>The last stage of \<open>app_prepare\<close>: announce READY, or take the wiring back.\<close>

lemma announce_cases:
  assumes body: "(let (ok, app, w) = log_startup a3 v in if \<not> ok then (let (app, w) = destroy_loop app w in (False, app, w))
      else (True, app, w)) = (ok, app', w')"
    and sig: "signal_fd (app_loop a3) = int fd" "previous_mask_valid (app_loop a3)" "previous_mask (app_loop a3) = signal_mask w"
    and acc: "\<And>n. fd_open n v = fd_open n w + (if n = fd then 1 else 0)"
    and ev: "evolves setup_effect w v"
  obtains (failed) "\<not> ok" "app_notify app' = app_notify a3" "app_icmp app' = app_icmp a3" "app_log app' = app_log a3"
      "evolves start_effect w w'" "\<And>n. fd_open n w' = fd_open n w" "mask_back (signal_mask w) w'"
  | (ready) u where "ok" "core app' = core a3" "evolves setup_effect w u"
      "evolves quiet (emit (Notify_send ''READY=1'' True) u) w'"
      "\<And>n. fd_open n w' = fd_open n w + (if n = fd then 1 else 0)"
proof -
  obtain ok3 a4 w4 where ls: "log_startup a3 v = (ok3, a4, w4)" by (metis prod_cases3)
  from ls show ?thesis
  proof (cases rule: log_startup_cases)
    case failed
    have d: "destroy_loop a3 w4 = (app', w')" and ok: "\<not> ok"
      using body ls failed(1,2) by (auto split: prod.splits)
    have "evolves start_effect w w4"
      by (rule evolves_trans [OF start_evolves(1) [OF ev] start_evolves(3) [OF failed(3)]])
    note U = unwire [OF d sig _ this]
    show ?thesis
      by (rule that(1) [OF ok]) (use U acc accounting_ready [OF failed(3)] in simp_all)
  next
    case (ready u)
    show ?thesis
      by (rule that(2) [OF _ _ evolves_trans [OF ev acquire_setup [OF acquire_stderr [OF ready(3)]]]])
        (use body ls ready acc accounting_quiet [OF ready(4)] accounting_stderr [OF ready(3)] in auto)
  qed
qed

lemma app_prepare_cases:
  assumes "app_prepare app w = (ok, app', w')" "0 \<le> icmp_sockfd (app_icmp app)"
  obtains (failed) "\<not> ok" "app_notify app' = app_notify app" "app_icmp app' = app_icmp app" "app_log app' = app_log app"
      "evolves start_effect w w'" "\<And>n. fd_open n w' = fd_open n w" "mask_back (signal_mask w) w'"
  | (ready) fd now u where "ok" "now \<noteq> UINT64_MAX" "core app' = core (app\<lparr>app_loop := started_loop (signal_mask w) app fd now,
        watchdog_timer := 0, reply_timer := 1, ping_timer := 2\<rparr>)"
      "evolves setup_effect w u" "evolves quiet (emit (Notify_send ''READY=1'' True) u) w'"
      "\<And>n. fd_open n w' = fd_open n w + (if n = fd then 1 else 0)"
      "\<exists>n. now = coarse_ms (world_os w) n"
proof -
  obtain r a1 w1 where wl: "wire_loop (app\<lparr>app_loop := ls_loop_init (app_log app)\<rparr>) w = (r, a1, w1)" by (metis prod_cases3)
  from wl assms(2) show ?thesis
  proof (cases rule: wire_loop_cases)
    case (failed e)
    obtain m where "a1 = app\<lparr>app_loop := (ls_loop_init (app_log app))\<lparr>previous_mask := m\<rparr>\<rparr>" using failed(2) by blast
    note P = app_prepare_unwired [OF assms(1) this _ failed(3-5)]
    show ?thesis
      by (rule that(1)) (rule P, use wl failed(1) in simp)+
  next
    case (wired fd)
    obtain now w2 where n: "ls_now_ms w1 = (now, w2)" by (metis surj_pair)
    have w2: "w2 = w1\<lparr>tick := Suc (tick w1)\<rparr>" and rd: "now = coarse_ms (world_os w) (tick w1)"
      using n evolves_os [OF wired(3)] by (simp_all add: ls_now_ms_coarse)
    note body = assms(1) [unfolded app_prepare_wired [OF wl [unfolded wired(1)] wired(2)] n prod.case]
    have acc: "fd_open n w2 = fd_open n w + (if n = fd then 1 else 0)" for n
      using wired(4) by (simp add: w2)
    have ev: "evolves setup_effect w w2" using wired(3) by (auto simp: w2)
    show ?thesis
    proof (cases "now = UINT64_MAX")
      case True
      let ?v = "ls_error (app_log a1) ''Failed to initialize monotonic timing state'' w2"
      have d: "destroy_loop a1 ?v = (app', w')" and ok: "\<not> ok" using body True by (auto simp: Let_def split: prod.splits)
      have "evolves start_effect w ?v" using start_evolves(1) [OF ev] by (auto simp: start_effect_def)
      note U = unwire [OF d _ _ _ _ this, where fd = fd and m = "signal_mask w"]
      show ?thesis
        by (rule that(1) [OF ok]) (use U acc in \<open>simp_all add: wired(2) wired_loop_def\<close>)
    next
      case False
      let ?a3 = "app\<lparr>app_loop := started_loop (signal_mask w) app fd now, watchdog_timer := 0, reply_timer := 1, ping_timer := 2\<rparr>"
      have "(let (ok, app, w) = log_startup ?a3 w2 in if \<not> ok then (let (app, w) = destroy_loop app w in (False, app, w))
          else (True, app, w)) = (ok, app', w')"
        using body False by (simp add: Let_def)
      moreover have "signal_fd (app_loop ?a3) = int fd" "previous_mask_valid (app_loop ?a3)" "previous_mask (app_loop ?a3) = signal_mask w"
        by (simp_all add: started_loop_def wired_loop_def Let_def)
      ultimately show ?thesis
        by (rule announce_cases [OF _ _ _ _ acc ev]) (use that(1) in simp, use that(2) [OF _ False] rd in auto)
    qed
  qed
qed

end
