(* ===== verification/LS_Action.thy ===== *)
theory LS_Action
  imports LS_App
begin

text \<open>
  The parts of \<^verbatim>\<open>src/app.c\<close> that must come to an end by themselves: what an attempt to
  power the host off may do and when it counts as done, how long the spawned command is observed, and
  how much of the socket one wake-up drains. A reply that waits in the socket when the reply timer fires
  still counts.
\<close>

section \<open>Outcome of a shutdown attempt\<close>

text \<open>What the process did apart from writing log lines.\<close>

definition deeds :: "world \<Rightarrow> effect list" where
  "deeds w = filter (\<lambda>e. \<not> is_Stderr e) (trace w)"

lemma deeds_simps [simp]:
  "deeds (emit e w) = (if is_Stderr e then deeds w else deeds w @ [e])" "deeds (w\<lparr>tick := n\<rparr>) = deeds w"
  by (simp_all add: deeds_def)

lemma deeds_stderr: "evolves is_Stderr w w' \<Longrightarrow> deeds w' = deeds w"
  unfolding deeds_def by (rule evolves_filter) auto

lemma deeds_log [simp]:
  "deeds (ls_error lg t w) = deeds w" "deeds (ls_warn lg t w) = deeds w" "deeds (ls_info lg t w) = deeds w"
  by (rule deeds_stderr, auto)+

text \<open>The status with which the child ends, whatever it is asked before.\<close>

primrec obs_status :: "child_obs \<Rightarrow> wait_status option" where
  "obs_status (Wait_interrupted rest) = obs_status rest"
| "obs_status (Wait_failed e) = None"
| "obs_status (Wait_status s) = Some s"
| "obs_status (Wait_pending sleep rest) = obs_status rest"

lemma observe_loop_triggered:
  "observe_loop obs pid dl lg w = (LS_ACTION_TRIGGERED, w') \<Longrightarrow>
     obs_status obs = Some (WIFEXITED 0) \<and> deeds w' = deeds w @ [Reap_child pid]"
proof (induction obs arbitrary: w)
  case (Wait_status s)
  then show ?case by (auto simp: consume_child_status_def split: wait_status.splits if_splits)
next
  case (Wait_pending sl obs)
  obtain t v where n: "ls_now_ms w = (t, v)" by (metis surj_pair)
  with Wait_pending.prems have "observe_loop obs pid dl lg v = (LS_ACTION_TRIGGERED, w')"
    by (auto simp: case_prod_unfold Let_def split: if_splits)
  with Wait_pending.IH ls_now_ms_D [OF n] show ?case by simp
qed auto

lemma prepare_stdio_frame: "prepare_stdio n w = (rc, w') \<Longrightarrow> deeds w' = deeds w \<and> world_os w' = world_os w"
  using prepare_stdio_world [of n w rc w' is_Stderr] deeds_stderr evolves_os by blast

text \<open>An attempt counts as triggered only when \<^verbatim>\<open>systemctl\<close> was spawned, reaped, and had exited
  with status 0.\<close>

lemma spawn_triggered:
  assumes "spawn_shutdown_command lg w = (LS_ACTION_TRIGGERED, w')"
  obtains pid n where "os_spawn (world_os w) n = Inr pid" "obs_status (os_child (world_os w) (Suc (Suc n))) = Some (WIFEXITED 0)"
    "deeds w' = deeds w @ [Spawn LS_SYSTEMCTL_PATH SHUTDOWN_ARGV SHUTDOWN_ENVP, Reap_child pid]"
proof -
  obtain rc v where p: "prepare_stdio 3 (w\<lparr>tick := Suc (tick w)\<rparr>) = (rc, v)" by (metis surj_pair)
  note V = prepare_stdio_frame [OF p, simplified]
  let ?s = "emit (Spawn LS_SYSTEMCTL_PATH SHUTDOWN_ARGV SHUTDOWN_ENVP) (v\<lparr>tick := Suc (tick v)\<rparr>)"
  obtain pid where s: "os_spawn (world_os w) (tick v) = Inr pid" "observe_startup pid lg ?s = (LS_ACTION_TRIGGERED, w')"
    using assms p V by (auto simp: spawn_shutdown_command_def ask_def Let_def SHUTDOWN_ARGV_def split: option.splits sum.splits)
  obtain dl v2 where o: "observe_loop (os_child (world_os w) (Suc (Suc (tick v)))) pid dl lg v2 = (LS_ACTION_TRIGGERED, w')" "deeds v2 = deeds ?s"
    using s(2) V by (auto simp: observe_startup_def ask_def Let_def case_prod_unfold split: if_splits)
  show ?thesis
    by (rule that [OF s(1)]) (use observe_loop_triggered [OF o(1)] o(2) V in simp_all)
qed

lemma attempt_spawns: "attempt_trace w w' \<Longrightarrow> length (filter is_Spawn (trace w')) \<le> Suc (length (filter is_Spawn (trace w)))"
proof -
  have F: "filter is_Spawn (trace v) = filter is_Spawn (trace u)" if "evolves P u v" "\<And>e. P e \<Longrightarrow> \<not> is_Spawn e" for P u v
    by (rule evolves_filter [OF that])
  assume "attempt_trace w w'"
  then show ?thesis
    unfolding attempt_trace_def
  proof (elim disjE exE conjE)
    assume "evolves is_Stderr w w'"
    then show ?thesis using F [of is_Stderr w w'] by fastforce
  next
    fix v assume v: "evolves is_Stderr w v" "evolves action_effect (emit (Spawn LS_SYSTEMCTL_PATH SHUTDOWN_ARGV SHUTDOWN_ENVP) v) w'"
    have "filter is_Spawn (trace v) = filter is_Spawn (trace w)" by (rule F [OF v(1)]) auto
    moreover have "filter is_Spawn (trace w') = filter is_Spawn (trace (emit (Spawn LS_SYSTEMCTL_PATH SHUTDOWN_ARGV SHUTDOWN_ENVP) v))"
      by (rule F [OF v(2)]) (auto simp: action_effect_def)
    ultimately show ?thesis by simp
  qed
qed

text \<open>C5: The threshold action, on every branch. Below the threshold nothing happens. At the threshold a
  dry run stops the daemon with success and does nothing but log. With poweroff enabled the daemon
  stops only if \<^verbatim>\<open>systemctl --no-block poweroff\<close> was spawned once, reaped, and had exited with
  status 0; in every other case it goes on monitoring with all its state, the failure count
  included, unchanged, and has spawned at most one command.\<close>
theorem threshold_action_outcome:
  "case check_threshold app w of (app', w') \<Rightarrow>
     if consecutive_fails app < fail_threshold (app_config app) then app' = app \<and> w' = w
     else if \<not> poweroff (app_config app) then app' = app_stop LS_EXIT_SUCCESS app \<and> deeds w' = deeds w
     else (app' = app \<and> length (filter is_Spawn (trace w')) \<le> Suc (length (filter is_Spawn (trace w)))) \<or>
       (app' = app_stop LS_EXIT_SUCCESS app \<and>
        (\<exists>pid n. os_spawn (world_os w) n = Inr pid \<and> obs_status (os_child (world_os w) (Suc (Suc n))) = Some (WIFEXITED 0) \<and>
           deeds w' = deeds w @ [Spawn ''/usr/bin/systemctl'' [''/usr/bin/systemctl'', ''--no-block'', ''poweroff'']
             [''PATH=/usr/bin:/usr/sbin:/bin:/sbin'', ''LC_ALL=C''], Reap_child pid]))"
proof -
  obtain app' w' where c: "check_threshold app w = (app', w')" by (metis surj_pair)
  obtain r v where a: "run_shutdown_action (poweroff (app_config app)) (app_log app) w = (r, v)" by (metis surj_pair)
  from c show ?thesis
  proof (cases rule: check_threshold_cases)
    case attempt
    show ?thesis
    proof (cases "r = LS_ACTION_TRIGGERED")
      case True
      let ?w = "ls_warn (app_log app) ''Failure threshold reached; triggering system shutdown now'' w"
      have sp: "spawn_shutdown_command (app_log app) ?w = (LS_ACTION_TRIGGERED, v)"
        using a True attempt(2) by (simp add: run_shutdown_action_def)
      have os: "world_os ?w = world_os w" by (simp add: evolves_os [of is_Stderr w ?w] log_evolves)
      obtain pid n where p: "os_spawn (world_os w) n = Inr pid" "obs_status (os_child (world_os w) (Suc (Suc n))) = Some (WIFEXITED 0)"
          "deeds v = deeds w @ [Spawn LS_SYSTEMCTL_PATH SHUTDOWN_ARGV SHUTDOWN_ENVP, Reap_child pid]"
        by (rule spawn_triggered [OF sp]) (simp add: os)
      have "app' = app_stop LS_EXIT_SUCCESS app" "deeds w' = deeds v"
        using c a True attempt(1) by (auto simp: check_threshold_def)
      with attempt p show ?thesis
        by (auto simp: c SHUTDOWN_ARGV_def SHUTDOWN_ENVP_def LS_SYSTEMCTL_PATH_def)
    next
      case False
      have "r \<noteq> LS_ACTION_SIMULATED" using a attempt(2) by (cases rule: run_shutdown_action_cases) auto
      then have "app' = app" using c a False attempt(1) by (auto simp: check_threshold_def)
      with attempt attempt_spawns [OF attempt(4)] show ?thesis by (simp add: c)
    qed
  qed (use c deeds_stderr in \<open>auto\<close>)
qed

lemma observe_loop_deadline:
  assumes "list_all sleep_retry_window sleeps" "sleeps \<noteq> []"
    "\<And>i. i < length sleeps \<Longrightarrow> coarse_ms (world_os w) (tick w + i) \<noteq> UINT64_MAX"
    "dl \<le> coarse_ms (world_os w) (tick w + (length sleeps - 1))"
  shows "\<exists>w'. observe_loop (foldr Wait_pending sleeps rest) pid dl lg w = (LS_ACTION_FAILED, w') \<and>
    filter is_Kill_child (trace w') = filter is_Kill_child (trace w) @ [Kill_child pid]"
  using assms
proof (induction sleeps arbitrary: w)
  case (Cons s sleeps)
  let ?v = "w\<lparr>tick := Suc (tick w)\<rparr>"
  have now: "coarse_ms (world_os w) (tick w) \<noteq> UINT64_MAX" using Cons.prems(3) [of 0] by simp
  show ?case
  proof (cases "dl \<le> coarse_ms (world_os w) (tick w)")
    case True
    have F: "filter is_Kill_child (trace (ls_warn lg t u)) = filter is_Kill_child (trace u)" for t u
      by (rule evolves_filter [of is_Stderr]) auto
    from True now show ?thesis
      by (auto simp: ls_now_ms_coarse ask_def Let_def F split: sum.splits)
  next
    case False
    then have ne: "sleeps \<noteq> []" using Cons.prems(4) by auto
    have "\<exists>w'. observe_loop (foldr Wait_pending sleeps rest) pid dl lg ?v = (LS_ACTION_FAILED, w') \<and>
        filter is_Kill_child (trace w') = filter is_Kill_child (trace ?v) @ [Kill_child pid]"
    proof (rule Cons.IH [OF _ ne])
      show "coarse_ms (world_os ?v) (tick ?v + i) \<noteq> UINT64_MAX" if "i < length sleeps" for i
        using Cons.prems(3) [of "Suc i"] that by simp
      show "dl \<le> coarse_ms (world_os ?v) (tick ?v + (length sleeps - 1))"
        using Cons.prems(4) ne by (cases sleeps) simp_all
    qed (use Cons.prems(1) in simp)
    with False now Cons.prems(1) show ?thesis by (simp add: ls_now_ms_coarse)
  qed
qed simp

text \<open>C11: The observation of the shutdown command ends. Even if the child never reports anything, as soon as
  some reading of the clock is a second past the first one (and none fails), the loop gives up: the
  child is killed exactly once and the attempt counts as failed, whatever the child would have
  reported later.\<close>
theorem observe_startup_terminates:
  assumes "os_child (world_os w) (tick w + 1) = foldr Wait_pending sleeps rest" "list_all sleep_retry_window sleeps" "sleeps \<noteq> []"
    "coarse_ms (world_os w) (tick w) \<noteq> UINT64_MAX"
    "\<forall>i < length sleeps. coarse_ms (world_os w) (tick w + 2 + i) \<noteq> UINT64_MAX"
    "unat (coarse_ms (world_os w) (tick w)) + 1000 \<le> unat (coarse_ms (world_os w) (tick w + 1 + length sleeps))"
  shows "\<exists>w'. observe_startup pid lg w = (LS_ACTION_FAILED, w') \<and>
    filter is_Kill_child (trace w') = filter is_Kill_child (trace w) @ [Kill_child pid]"
proof -
  define v where "v = w\<lparr>tick := Suc (Suc (tick w))\<rparr>"
  define dl where "dl = ls_add_sat (coarse_ms (world_os w) (tick w)) LS_STARTUP_GRACE_MS"
  obtain s ss where ss: "sleeps = s # ss" using assms(3) by (cases sleeps) auto
  have last: "tick w + 1 + length sleeps = Suc (Suc (tick w + length ss))" by (simp add: ss)
  have "unat (coarse_ms (world_os w) (tick w + 1 + length sleeps)) < 18446744073709551615"
    using assms(5) [THEN spec, of "length ss"] unfolding last by (simp add: ss not_UINT64_MAX_iff)
  then have "unat dl = unat (coarse_ms (world_os w) (tick w)) + 1000"
    using assms(6) by (simp add: dl_def unat_ls_add_sat LS_STARTUP_GRACE_MS_def)
  then have dl: "dl \<le> coarse_ms (world_os w) (tick w + 1 + length sleeps)"
    using assms(6) by (simp add: word_le_nat_alt)
  have "\<exists>w'. observe_loop (foldr Wait_pending sleeps rest) pid dl lg v = (LS_ACTION_FAILED, w') \<and>
      filter is_Kill_child (trace w') = filter is_Kill_child (trace v) @ [Kill_child pid]"
    by (rule observe_loop_deadline [OF assms(2,3)])
      (use assms(5) dl [unfolded last] ss in \<open>simp_all add: v_def\<close>)
  then show ?thesis
    using assms(1,4) by (simp add: observe_startup_def ask_def ls_now_ms_coarse v_def dl_def)
qed

theorem observe_startup_terminates_witness:
  "\<exists>w'. observe_startup 77 (ls_log_init LS_LOG_INFO) (boot (sample_os\<lparr>
       os_child := \<lambda>_. Wait_pending (\<lambda>_. Completed None) (Wait_failed EINTR),
       os_clock_coarse := \<lambda>n. Some \<lparr>tv_sec = 3600 + int n, tv_nsec = 0\<rparr>\<rparr>)) = (LS_ACTION_FAILED, w')"
proof -
  let ?sys = "sample_os\<lparr>os_child := \<lambda>_. Wait_pending (\<lambda>_. Completed None) (Wait_failed EINTR),
    os_clock_coarse := \<lambda>n. Some \<lparr>tv_sec = 3600 + int n, tv_nsec = 0\<rparr>\<rparr>"
  have "unat (coarse_ms ?sys n) = (3600 + n) * 1000" if "n \<le> 2" for n
    using that unat_timespec_ms [of "\<lparr>tv_sec = 3600 + int n, tv_nsec = 0\<rparr>"]
    by (simp add: coarse_ms_def timespec_ok_def nat_add_distrib)
  then have t: "unat (coarse_ms ?sys 0) = 3600000" "unat (coarse_ms ?sys 2) = 3602000" by simp_all
  then have "coarse_ms ?sys 0 \<noteq> UINT64_MAX" "coarse_ms ?sys 2 \<noteq> UINT64_MAX" by (auto simp: not_UINT64_MAX_iff)
  then show ?thesis
    using observe_startup_terminates [of "boot ?sys" "[\<lambda>_. Completed None]" "Wait_failed EINTR" 77 "ls_log_init LS_LOG_INFO"] t
    by (auto simp: sleep_retry_window_def numeral_2_eq_2)
qed

definition packets :: "world \<Rightarrow> nat" where
  "packets w = length (filter is_Recv_packet (trace w))"

lemma packets_simps [simp]:
  "packets (emit e w) = packets w + (if is_Recv_packet e then 1 else 0)" "packets (w\<lparr>tick := n\<rparr>) = packets w"
  by (simp_all add: packets_def)

lemma packets_quiet: "evolves quiet w w' \<Longrightarrow> packets w' = packets w"
  using evolves_filter [of quiet w w' is_Recv_packet] by (auto simp: packets_def quiet_def split: effect.splits)

lemma drain_packets: "drain_loop n app w = (m, app', w') \<Longrightarrow> packets w' \<le> packets w + n"
proof (induction n arbitrary: app w)
  case (Suc n)
  obtain st err ic v where r: "ls_icmp_recv (app_icmp app) (app_dest app) (app_identifier app) (probe_sequence app) w
      = (st, err, ic, v)" by (metis prod_cases4)
  have v: "packets v \<le> packets w + 1"
    using r by (cases rule: ls_icmp_recv_cases) auto
  have q: "packets u' = packets u" if "app_fail a b c u = (d, u')" for a b c d u u'
    by (rule packets_quiet [OF app_fail_frame(2) [OF that]])
  have s: "packets u' = packets u" if "probe_succeeded a b c u = (d, u')" for a b c d u u'
    by (rule packets_quiet [OF probe_succeeded_frame(2) [OF that]])
  from Suc.prems [unfolded drain_loop.simps r prod.case Let_def] Suc.IH v show ?case
    by (auto split: if_splits prod.splits dest!: q s ls_now_ns_D) (fastforce dest: Suc.IH)+
qed simp

text \<open>C20: A wake-up is bounded and honest. At most 32 packets are taken from the socket; a success is recorded
  only while a probe is outstanding, and then exactly one, with the failure run reset and the probe
  closed; otherwise statistics and failure run are left alone.\<close>
theorem drain_bounded:
  "case drain_and_match_reply app w of (matched, app', w') \<Rightarrow>
     length (filter is_Recv_packet (trace w')) \<le> length (filter is_Recv_packet (trace w)) + 32 \<and>
     (if matched then reply_armed app \<and> consecutive_fails app' = 0 \<and> probe_sequence app' = 0 \<and>
          (\<exists>lat. 0 \<le> lat \<and> app_stats app' = ls_stats_add_ok lat (app_stats app))
      else consecutive_fails app' = consecutive_fails app \<and> app_stats app' = app_stats app)"
proof -
  obtain m app' w' where d: "drain_loop LS_MAX_REPLY_DRAIN_PER_WAKEUP app w = (m, app', w')" by (metis prod_cases3)
  have b: "length (filter is_Recv_packet (trace w')) \<le> length (filter is_Recv_packet (trace w)) + 32"
    using drain_packets [OF d] by (simp add: packets_def LS_MAX_REPLY_DRAIN_PER_WAKEUP_def)
  from d show ?thesis
  proof (cases rule: drain_loop_cases)
    case none
    with b core_agree(8,9) [OF none(2)] show ?thesis
      by (simp add: drain_and_match_reply_def d)
  next
    case fail
    have "core app' = core (app_stop LS_EXIT_FAILURE (probe_reset app))" using fail(2) by simp
    with b fail(1) core_agree(8,9) [OF this] show ?thesis
      by (simp add: drain_and_match_reply_def d probe_reset_def Let_def)
  next
    case (hit lat)
    have "core app' = core ((probe_reset app)\<lparr>consecutive_fails := 0, app_stats := ls_stats_add_ok lat (app_stats app)\<rparr>)"
      using hit(4) by simp
    with b hit(1-3) core_agree(7-9) [OF this] show ?thesis
      by (auto simp: drain_and_match_reply_def d probe_reset_def Let_def)
  qed
qed

section \<open>Replies that are already there\<close>

lemma drain_accepts:
  "icmp_usable (app_icmp app) (app_dest app) \<Longrightarrow> reply_armed app \<Longrightarrow> k < n \<Longrightarrow>
     \<forall>i < k. \<exists>q. os_recvfrom (world_os w) (tick w + i) = Inr q \<Longrightarrow> os_recvfrom (world_os w) (tick w + k) = Inr p \<Longrightarrow>
     is_reply (os_big_endian (world_os w)) (app_dest app) (app_identifier app) (probe_sequence app) p \<Longrightarrow>
     fst (drain_loop n app w)"
proof (induction n arbitrary: app w k)
  case (Suc n)
  obtain st err ic v where r: "ls_icmp_recv (app_icmp app) (app_dest app) (app_identifier app) (probe_sequence app) w
      = (st, err, ic, v)" by (metis prod_cases4)
  obtain q where q: "os_recvfrom (world_os w) (tick w) = Inr q"
    using Suc.prems(4,5) by (cases k) fastforce+
  note R = ls_icmp_recv_packet [OF Suc.prems(1) q r]
  show ?case
  proof (cases "st = LS_ICMP_RECV_MATCHED")
    case True
    with Suc.prems(2) show ?thesis by (simp add: r Let_def case_prod_unfold)
  next
    case False
    then obtain j where j: "k = Suc j" using R Suc.prems(5,6) q by (cases k) auto
    have "fst (drain_loop n (app\<lparr>app_icmp := ic\<rparr>) v)"
      by (rule Suc.IH [of _ j]) (use Suc.prems R j in \<open>auto dest: spec [of _ "Suc _"]\<close>)
    with False R show ?thesis by (simp add: r Let_def split: if_splits)
  qed
qed simp

text \<open>C19: A reply that is already there counts. When the reply deadline fires, the socket is drained before
  the probe is given up: if the reply of the outstanding probe is among the first 32 packets waiting, the
  callback records a success, with the failure run reset, the probe closed and the loop still running,
  and no command is spawned, however late the daemon was woken.\<close>
theorem pending_reply_counts:
  assumes "icmp_usable (app_icmp app) (app_dest app)" "reply_armed app" "k < 32"
    "\<forall>i < k. \<exists>q. os_recvfrom (world_os w) (tick w + i) = Inr q" "os_recvfrom (world_os w) (tick w + k) = Inr p"
    "is_reply (os_big_endian (world_os w)) (app_dest app) (app_identifier app) (probe_sequence app) p"
  shows "case on_reply_timer app w of (app', w') \<Rightarrow>
    consecutive_fails app' = 0 \<and> (\<exists>lat. 0 \<le> lat \<and> app_stats app' = ls_stats_add_ok lat (app_stats app)) \<and>
    probe_sequence app' = 0 \<and> stopping (app_loop app') = stopping (app_loop app) \<and>
    filter is_Spawn (trace w') = filter is_Spawn (trace w)"
proof -
  obtain m app' w' where d: "drain_loop LS_MAX_REPLY_DRAIN_PER_WAKEUP app w = (m, app', w')" by (metis prod_cases3)
  have m
    using drain_accepts [OF assms(1,2) _ assms(4-6), of LS_MAX_REPLY_DRAIN_PER_WAKEUP] assms(3) d
    by (simp add: LS_MAX_REPLY_DRAIN_PER_WAKEUP_def)
  then have r: "on_reply_timer app w = (app', w')" by (simp add: on_reply_timer_def drain_and_match_reply_def d)
  from d show ?thesis
  proof (cases rule: drain_loop_cases)
    case (hit lat)
    have "core app' = core ((probe_reset app)\<lparr>consecutive_fails := 0, app_stats := ls_stats_add_ok lat (app_stats app)\<rparr>)"
      using hit(4) by simp
    note K = core_agree(3,7-9) [OF this]
    have "filter is_Spawn (trace w') = filter is_Spawn (trace w)"
      by (rule evolves_filter [OF hit(5)]) (auto simp: drain_effect_def quiet_def split: effect.splits)
    with K hit(3) show ?thesis by (auto simp: r probe_reset_def Let_def)
  qed (use \<open>m\<close> in auto)
qed

theorem pending_reply_counts_witness:
  "let app = \<lparr>app_config = load_defaults, app_log = ls_log_init LS_LOG_INFO, app_stats = fst (ls_stats_init (boot sample_os)),
         app_icmp = zero_icmp\<lparr>icmp_sockfd := 5, icmp_opened := True, icmp_family := AF_INET6\<rparr>, app_notify = zero_notify,
         app_dest = zero_sockaddr\<lparr>ss_family := AF_INET6\<rparr>, app_dest_len = 28, app_identifier = 1,
         app_loop = (ls_loop_init (ls_log_init LS_LOG_INFO))\<lparr>timers := [\<lparr>deadline_ms = 400, timer_cb = On_reply_timer\<rparr>]\<rparr>,
         ping_timer = 2, reply_timer = 0, watchdog_timer = 1, probe_sent_ns = 0, probe_sequence = 1,
         consecutive_fails = 4, watchdog_last_failed = False\<rparr>;
       sys = sample_os\<lparr>os_recvfrom := \<lambda>_. Inr ([129, 0, 0, 0, 0, 1, 0, 1], zero_sockaddr\<lparr>ss_family := AF_INET6\<rparr>)\<rparr>
   in consecutive_fails (fst (on_reply_timer app (boot sys))) = 0"
proof -
  let ?app = "\<lparr>app_config = load_defaults, app_log = ls_log_init LS_LOG_INFO, app_stats = fst (ls_stats_init (boot sample_os)),
         app_icmp = zero_icmp\<lparr>icmp_sockfd := 5, icmp_opened := True, icmp_family := AF_INET6\<rparr>, app_notify = zero_notify,
         app_dest = zero_sockaddr\<lparr>ss_family := AF_INET6\<rparr>, app_dest_len = 28, app_identifier = 1,
         app_loop = (ls_loop_init (ls_log_init LS_LOG_INFO))\<lparr>timers := [\<lparr>deadline_ms = 400, timer_cb = On_reply_timer\<rparr>]\<rparr>,
         ping_timer = 2, reply_timer = 0, watchdog_timer = 1, probe_sent_ns = 0, probe_sequence = 1,
         consecutive_fails = 4, watchdog_last_failed = False\<rparr>"
  let ?p = "([129, 0, 0, 0, 0, 1, 0, 1] :: u8 list, zero_sockaddr\<lparr>ss_family := AF_INET6\<rparr>)"
  let ?sys = "sample_os\<lparr>os_recvfrom := \<lambda>_. Inr ?p\<rparr>"
  have "is_reply False (app_dest ?app) 1 1 ?p"
    by (simp add: is_reply_def source_matches_def reply_matches_def ntohs_def htons_def load16_def be16_def hi8_def lo8_def
        LS_ICMP_RECV_BUFFER_SIZE_def sizeof_echo_header_def ICMP6_ECHO_REPLY_def AF_INET_def AF_INET6_def Let_def)
  moreover have "icmp_usable (app_icmp ?app) (app_dest ?app)" by (simp add: icmp_usable_def)
  moreover have "reply_armed ?app" by (simp add: ls_timer_armed_def UINT64_MAX_def)
  ultimately show ?thesis
    using pending_reply_counts [of ?app 0 "boot ?sys" ?p] by (simp add: Let_def case_prod_unfold)
qed

end
