(* ===== verification/LS_Timers.thy ===== *)
theory LS_Timers
  imports LS_Monitor
begin

text \<open>
  The contract between \<^verbatim>\<open>src/loop.h\<close> and the callbacks of \<^verbatim>\<open>src/app.c\<close>: a
  callback moves its own timer forward.
\<close>

section \<open>Progress of the timers\<close>

lemma ls_timer_step_later:
  assumes "unat now + unat iv < 18446744073709551615" "deadline_ms t \<le> now"
  shows "deadline_ms t < deadline_ms (ls_timer_step iv now t)"
proof (cases "iv = 0")
  case True
  have "unat (deadline_ms t) < 18446744073709551615" using assms by (simp add: word_le_nat_alt)
  with True show ?thesis by (simp add: ls_timer_step_def ls_timer_disarm_def word_less_nat_alt)
next
  case False
  then have "0 < unat iv" by (simp add: unat_gt_0)
  with unat_ls_timer_step [OF assms False] assms(2) show ?thesis
    by (simp add: word_less_nat_alt word_le_nat_alt)
qed

lemma watchdog_interval_bound: "unat (ls_notify_watchdog_interval_ms n) \<le> 9223372036854776"
proof -
  have "unat (watchdog_usec n div (LS_MS_PER_SEC * 2)) = unat (watchdog_usec n) div 2000"
    by (simp add: unat_div LS_MS_PER_SEC_def)
  moreover have "unat (watchdog_usec n) div 2000 \<le> 18446744073709551615 div 2000"
    by (rule div_le_mono) (use unat_lt_UINT64 [of "watchdog_usec n"] in linarith)
  ultimately show ?thesis by (simp add: ls_notify_watchdog_interval_ms_def Let_def)
qed

lemma check_threshold_timers:
  assumes "check_threshold b v = (a', w')"
  shows "timers (app_loop a') = timers (app_loop b)"
  using assms by (cases rule: check_threshold_cases) auto

lemma reset_reply_deadline:
  assumes "app_wired cfg app"
  shows "deadline_ms (timers (app_loop (probe_reset app)) ! 1) = UINT64_MAX"
  using assms by (auto simp: probe_reset_def Let_def app_wired_def ls_timer_disarm_def map_eq_Cons_conv)

lemma wired_due:
  assumes "timer_due (app_loop app) i" "app_wired cfg app"
  shows "deadline_ms (timers (app_loop app) ! i) \<le> now_ms (app_loop app)" "deadline_ms (timers (app_loop app) ! i) < UINT64_MAX"
    "unat (now_ms (app_loop app)) < 9223372036854775808"
  using assms by (auto simp: timer_due_def ls_timer_armed_def app_wired_def order.strict_iff_order)

lemma ping_progress:
  assumes wired: "app_wired cfg app" and iv: "unat (interval_ms cfg) \<le> 2147483647000" and due: "timer_due (app_loop app) 2"
    and "on_ping_timer app w = (app', w')"
  shows "deadline_ms (timers (app_loop app) ! 2) < deadline_ms (timers (app_loop app') ! 2)"
proof -
  note D = wired_due [OF due wired]
  have idx: "ping_timer app = 2" "reply_timer app = 1" "app_config app = cfg" "ping_timer app \<noteq> reply_timer app"
    using wired by (simp_all add: app_wired_def)
  define a1 where "a1 = upd_timer (ls_timer_step (interval_ms (app_config app)) (now_ms (app_loop app))) (ping_timer app) app"
  have len: "length (timers (app_loop app)) = 3" using wired by (auto simp: app_wired_def map_eq_Cons_conv)
  have step: "deadline_ms (timers (app_loop app) ! 2) < deadline_ms (timers (app_loop a1) ! 2)"
    using ls_timer_step_later [OF _ D(1), of "interval_ms cfg"] D(3) iv len by (simp add: a1_def idx)
  have "timers (app_loop app') ! 2 = timers (app_loop a1) ! 2"
    using assms(4) idx(4)
  proof (cases rule: on_ping_timer_cases)
    case (fatal ic)
    have "app_loop app' = app_loop (app_stop LS_EXIT_FAILURE (core (a1\<lparr>app_icmp := ic\<rparr>)))"
      by (rule core_loop) (use fatal(2) in \<open>simp add: a1_def\<close>)
    then show ?thesis by simp
  next
    case (refused ic pkt e v b)
    have "app_loop b = app_loop ((core (a1\<lparr>app_icmp := ic\<rparr>))\<lparr>consecutive_fails := consecutive_fails app + 1,
         app_stats := ls_stats_add_fail (app_stats app)\<rparr>)"
      by (rule core_loop) (use refused(9) in \<open>simp add: a1_def\<close>)
    with check_threshold_timers [OF refused(8)] show ?thesis by simp
  qed (simp_all add: a1_def idx)
  with step show ?thesis by simp
qed

lemma reply_progress:
  assumes wired: "app_wired cfg app" and run: "\<not> stopping (app_loop app)" and due: "timer_due (app_loop app) 1"
    and "on_reply_timer app w = (app', w')"
  shows "deadline_ms (timers (app_loop app) ! 1) < deadline_ms (timers (app_loop app') ! 1)"
proof -
  have reset: "deadline_ms (timers (app_loop (probe_reset (core app))) ! 1) = UINT64_MAX"
    by (rule reset_reply_deadline) (use wired in simp)
  have "deadline_ms (timers (app_loop app') ! 1) = UINT64_MAX"
    using assms(4) run
  proof (cases rule: on_reply_timer_cases)
    case fatal
    with reset show ?thesis by (simp add: core_loop [OF fatal(1)])
  next
    case (hit lat)
    with reset show ?thesis by (simp add: core_loop [OF hit(4)])
  next
    case (timeout b v)
    with reset check_threshold_timers [OF timeout(2)] show ?thesis by (simp add: core_loop [OF timeout(3)])
  qed
  with wired_due(2) [OF due wired] show ?thesis by simp
qed

lemma watchdog_progress:
  assumes wired: "app_wired cfg app" and due: "timer_due (app_loop app) 0" and "on_watchdog_timer app w = (app', w')"
  shows "deadline_ms (timers (app_loop app) ! 0) < deadline_ms (timers (app_loop app') ! 0)"
proof -
  note D = wired_due [OF due wired]
  have len: "length (timers (app_loop app)) = 3" "watchdog_timer app = 0"
    using wired by (auto simp: app_wired_def map_eq_Cons_conv)
  have "deadline_ms (timers (app_loop app) ! 0) < deadline_ms (ls_timer_step
      (ls_notify_watchdog_interval_ms (app_notify app)) (now_ms (app_loop app)) (timers (app_loop app) ! 0))"
    by (rule ls_timer_step_later [OF _ D(1)]) (use D(3) watchdog_interval_bound [of "app_notify app"] in linarith)
  with on_watchdog_timer_frame(1) [OF assms(3)] len show ?thesis by auto
qed

text \<open>C12: The timers make progress. Whenever the loop runs the callback of a due slot, the deadline of that slot
  is strictly later afterwards (the reply timer is disarmed, the periodic ones move on), so no
  callback can keep the loop from polling by staying due.\<close>
theorem timers_make_progress:
  assumes "app_wired cfg app" "config_ok sys cfg" "\<not> stopping (app_loop app)" "i < length (timers (app_loop app))"
    "timer_due (app_loop app) i"
  shows "case app_timer_callback (timer_cb (timers (app_loop app) ! i)) app w of (app', w') \<Rightarrow>
    deadline_ms (timers (app_loop app) ! i) < deadline_ms (timers (app_loop app') ! i)"
proof -
  have iv: "unat (interval_ms cfg) \<le> 2147483647000" using assms(2) by (simp add: config_ok_def)
  from assms(1,4,5) show ?thesis
    by (cases rule: wired_callback)
      (use assms(3,5) watchdog_progress [OF assms(1)] reply_progress [OF assms(1)] ping_progress [OF assms(1) iv]
        in \<open>auto split: prod.split\<close>)
qed

theorem timers_make_progress_witness:
  "let app = \<lparr>app_config = load_defaults, app_log = ls_log_init LS_LOG_INFO, app_stats = fst (ls_stats_init (boot sample_os)),
         app_icmp = zero_icmp, app_notify = zero_notify, app_dest = zero_sockaddr, app_dest_len = 0, app_identifier = 1,
         app_loop = (ls_loop_init (ls_log_init LS_LOG_INFO))\<lparr>now_ms := 500, timers := [
           \<lparr>deadline_ms = UINT64_MAX, timer_cb = On_watchdog_timer\<rparr>, \<lparr>deadline_ms = UINT64_MAX, timer_cb = On_reply_timer\<rparr>,
           \<lparr>deadline_ms = 400, timer_cb = On_ping_timer\<rparr>]\<rparr>,
         ping_timer = 2, reply_timer = 1, watchdog_timer = 0, probe_sent_ns = 0, probe_sequence = 0,
         consecutive_fails = 0, watchdog_last_failed = False\<rparr>
   in case app_timer_callback On_ping_timer app (boot sample_os) of (app', w') \<Rightarrow>
        400 < deadline_ms (timers (app_loop app') ! 2)"
proof -
  let ?app = "\<lparr>app_config = load_defaults, app_log = ls_log_init LS_LOG_INFO, app_stats = fst (ls_stats_init (boot sample_os)),
         app_icmp = zero_icmp, app_notify = zero_notify, app_dest = zero_sockaddr, app_dest_len = 0, app_identifier = 1,
         app_loop = (ls_loop_init (ls_log_init LS_LOG_INFO))\<lparr>now_ms := 500, timers := [
           \<lparr>deadline_ms = UINT64_MAX, timer_cb = On_watchdog_timer\<rparr>, \<lparr>deadline_ms = UINT64_MAX, timer_cb = On_reply_timer\<rparr>,
           \<lparr>deadline_ms = 400, timer_cb = On_ping_timer\<rparr>]\<rparr>,
         ping_timer = 2, reply_timer = 1, watchdog_timer = 0, probe_sent_ns = 0, probe_sequence = 0,
         consecutive_fails = 0, watchdog_last_failed = False\<rparr>"
  have "app_wired load_defaults ?app" by (simp add: app_wired_def load_defaults_eq)
  moreover have "config_ok sample_os load_defaults"
    by (rule ls_config_resolve_ok) (simp add: ls_config_resolve_def load_env_def ENV_SPECS_def sample_os_def validate_def load_defaults_eq
      ls_addr_is_literal_def ls_addr_parse_def AF_INET_def)
  moreover have "timer_due (app_loop ?app) 2" by (simp add: timer_due_def ls_timer_armed_def UINT64_MAX_def)
  ultimately show ?thesis
    using timers_make_progress [of load_defaults ?app sample_os 2 "boot sample_os"]
    by (simp add: Let_def ls_loop_init_def)
qed

end
