(* ===== verification/LS_Life.thy ===== *)
theory LS_Life
  imports LS_Start LS_Action LS_Timers
begin

text \<open>
  Runs of \<^verbatim>\<open>main\<close>: \<open>loop_entry\<close> is the state in which the event loop starts,
  \<open>running\<close> the states in which it tests its condition, \<open>ls_finish\<close> what follows the loop.
  \<open>ls_main_cases\<close> takes a run apart into these pieces.
\<close>

section \<open>Runs\<close>

text \<open>The state and world in which the loop of a run of \<open>ls_main\<close> starts, if it gets that far, and the
  states in which that loop tests its condition.\<close>

definition loop_entry :: "world \<Rightarrow> ls_config_t \<Rightarrow> app_t \<Rightarrow> world \<Rightarrow> bool" where
  "loop_entry w0 cfg a w \<longleftrightarrow>
     ls_config_resolve (world_os w0) = Inr cfg \<and>
     (case app_init cfg w0 of (r, app, v) \<Rightarrow> r = Inr () \<and> app_prepare app v = (True, a, w))"

definition running :: "world \<Rightarrow> ls_config_t \<Rightarrow> app_t \<Rightarrow> world \<Rightarrow> bool" where
  "running w0 cfg a w \<longleftrightarrow> (\<exists>a1 w1. loop_entry w0 cfg a1 w1 \<and> loop_head app_client a1 w1 a w)"

lemma holds_agree:
  assumes "core a = core b"
  shows "app_holds a n = app_holds b n" "started_loop m a fd now = started_loop m b fd now"
  by (simp_all add: app_holds_def started_loop_def ls_notify_watchdog_interval_ms_def
      core_agree [OF assms])

lemma started_loop_simps [simp]:
  "signal_fd (started_loop m a fd now) = int fd" "previous_mask_valid (started_loop m a fd now)"
  "\<not> stopping (started_loop m a fd now)" "lp_exit_code (started_loop m a fd now) = LS_EXIT_SUCCESS"
  "now_ms (started_loop m a fd now) = 0" "signal_cb (started_loop m a fd now) = Some On_signal"
  "map timer_cb (timers (started_loop m a fd now)) = [On_watchdog_timer, On_reply_timer, On_ping_timer]"
  "\<not> ls_timer_armed (timers (started_loop m a fd now) ! Suc 0)"
  "fd_sources (fds (started_loop m a fd now)) = [(int fd, Dispatch_signal_fd, True),
     (icmp_sockfd (app_icmp a), Fd_cb On_icmp_readable, False)]"
  "previous_mask (started_loop m a fd now) = m"
  by (simp_all add: started_loop_def wired_loop_def ls_loop_init_def Let_def ls_timer_armed_def fd_sources_def
      ls_timer_arm_after_def)

lemma app_init_ok:
  assumes "app_init cfg w = (Inr (), app, w')"
  shows "app_config app = cfg \<and> app_log app = ls_log_init (log_level cfg) \<and> consecutive_fails app = 0 \<and>
    probe_sequence app = 0 \<and> nt_opened (app_notify app) \<and> icmp_opened (app_icmp app) \<and>
    icmp_usable (app_icmp app) (app_dest app) \<and>
    ls_addr_parse (world_os w) (Some (target cfg)) = Inr (app_dest app, app_dest_len app)"
  using assms
proof (cases rule: app_init_stages)
  case (ready v v2 v3 v4 dest len)
  have "icmp_usable (app_icmp app) (app_dest app)" "icmp_opened (app_icmp app)"
    using ls_icmp_open_usable [OF ready(4)] ready(12) by (auto simp: icmp_usable_def)
  with ready show ?thesis
    using ls_notify_init_opened [OF ready(3)] by simp
qed auto

text \<open>Everything that holds of the application when it enters the loop.\<close>

lemma loop_entry_facts:
  assumes "loop_entry w0 cfg a w"
  obtains fd now u where "config_ok (world_os w0) cfg" "app_config a = cfg" "consecutive_fails a = 0" "probe_sequence a = 0"
    "app_loop a = started_loop (signal_mask w0) a fd now" "watchdog_timer a = 0" "reply_timer a = 1" "ping_timer a = 2"
    "nt_opened (app_notify a)" "0 \<le> nt_sockfd (app_notify a)" "icmp_opened (app_icmp a)" "0 \<le> icmp_sockfd (app_icmp a)"
    "now \<noteq> UINT64_MAX" "evolves setup_effect w0 u" "evolves quiet (emit (Notify_send ''READY=1'' True) u) w"
    "\<And>n. fd_open n w = fd_open n w0 + app_holds a n + loop_holds (app_loop a) n"
    "app_log a = ls_log_init (log_level cfg)" "\<exists>n. now = coarse_ms (world_os w0) n"
    "icmp_usable (app_icmp a) (app_dest a)" "ls_addr_parse (world_os w0) (Some (target cfg)) = Inr (app_dest a, app_dest_len a)"
proof -
  obtain app v where c: "ls_config_resolve (world_os w0) = Inr cfg" and i: "app_init cfg w0 = (Inr (), app, v)"
    and p: "app_prepare app v = (True, a, w)"
    using assms by (auto simp: loop_entry_def)
  note A = app_own.acquire_holds [OF i] app_own.acquire_masks [OF i] acquire_setup [OF app_own.acquire_effects [OF i]]
  note I = app_init_ok [OF i]
  have f: "app_config app = cfg" "app_log app = ls_log_init (log_level cfg)" "consecutive_fails app = 0" "probe_sequence app = 0"
    and op: "nt_opened (app_notify app)" "icmp_opened (app_icmp app)"
    and tgt: "icmp_usable (app_icmp app) (app_dest app)"
      "ls_addr_parse (world_os w0) (Some (target cfg)) = Inr (app_dest app, app_dest_len app)"
    using I by blast+
  have fds: "0 \<le> nt_sockfd (app_notify app)" "0 \<le> icmp_sockfd (app_icmp app)"
    using app_own.acquire_sound [OF i] op by (simp_all add: app_sound_def)
  from p fds(2) show ?thesis
  proof (cases rule: app_prepare_cases)
    case (ready fd now u)
    let ?b = "app\<lparr>app_loop := started_loop (signal_mask w0) app fd now, watchdog_timer := 0, reply_timer := 1, ping_timer := 2\<rparr>"
    note K = core_agree [OF ready(3)]
    have st: "started_loop (signal_mask v) a fd now = started_loop (signal_mask v) app fd now"
      using holds_agree(2) [OF ready(3)] by (simp add: started_loop_def)
    have us: "icmp_usable (app_icmp a) (app_dest a)"
      using usable_agree [OF ready(3)] K(16) tgt(1) by simp
    have h: "app_holds a n = app_holds app n" for n
      using holds_agree(1) [OF ready(3)] by (simp add: app_holds_def)
    show ?thesis
      by (rule that [of fd now u, OF ls_config_resolve_ok [OF c] _ _ _ _ _ _ _ _ _ _ _ ready(2) evolves_trans [OF A(3) ready(4)] ready(5)])
        (use K f op tgt(2) us fds st h ready(6,7) A(1,2) evolves_os [OF A(3)] in \<open>simp_all add: loop_holds_def\<close>)
  qed simp
qed

lemma setup_counts:
  assumes "evolves setup_effect w0 u" "evolves quiet (emit (Notify_send ''READY=1'' True) u) w"
  shows "spawns w = spawns w0" "echoes w = echoes w0" "world_os w = world_os w0"
proof -
  have u: "spawns u = spawns w0" "echoes u = echoes w0" "world_os u = world_os w0"
    by (rule evolves_counts [OF assms(1)]; auto simp: setup_effect_def split: effect.splits)+
  have e: "spawns (emit (Notify_send ''READY=1'' True) u) = spawns u" "echoes (emit (Notify_send ''READY=1'' True) u) = echoes u"
    by (simp_all add: spawns_def echoes_def)
  show "spawns w = spawns w0" "echoes w = echoes w0" "world_os w = world_os w0"
    using quiet_counts [OF assms(2)] u e by simp_all
qed

lemma entry_mon:
  assumes "loop_entry (boot sys) cfg a w" "clock_sane sys"
  shows "mon_inv cfg (app_stats a) a w"
  using assms(1)
proof (rule loop_entry_facts)
  fix fd now u
  assume cfg: "config_ok (world_os (boot sys)) cfg" "app_config a = cfg" and z: "consecutive_fails a = 0" "probe_sequence a = 0"
    and l: "app_loop a = started_loop (signal_mask (boot sys)) a fd now" and t: "watchdog_timer a = 0" "reply_timer a = 1" "ping_timer a = 2"
    and ev: "evolves setup_effect (boot sys) u" "evolves quiet (emit (Notify_send ''READY=1'' True) u) w"
  have "mon_rel (app_stats a) a w mon_init"
    using setup_counts [OF ev] z t by (subst mon_rel_def, subst l, simp add: mon_init_def l spawns_def echoes_def)
  moreover have "app_wired cfg a"
    using cfg t by (simp add: app_wired_def config_ok_def) (simp add: l)
  ultimately show ?thesis
    using assms(2) setup_counts(3) [OF ev] mon_reach.init by (auto simp: mon_inv_def)
qed

lemma entry_frame:
  assumes "loop_entry w0 cfg a w"
  shows "frame_inv a w a w"
  using assms
proof (rule loop_entry_facts)
  fix fd now assume l: "app_loop a = started_loop (signal_mask w0) a fd now" and t: "reply_timer a = 1" "ping_timer a = 2"
  then have "lp_exit_code (app_loop a) = LS_EXIT_SUCCESS" by (subst l) simp
  with t show ?thesis by (simp add: frame_inv_def same_channels_def)
qed

lemma running_mon:
  assumes "running (boot sys) cfg a w" "clock_sane sys"
  obtains a1 w1 where "loop_entry (boot sys) cfg a1 w1" "mon_inv cfg (app_stats a1) a w"
  using assms entry_mon app_mon.inv_head unfolding running_def by metis

lemma running_frame:
  assumes "running w0 cfg a w"
  obtains a1 w1 where "loop_entry w0 cfg a1 w1" "loop_head app_client a1 w1 a w" "frame_inv a1 w1 a w"
  using assms entry_frame app_frame.inv_head unfolding running_def by metis

section \<open>Exits\<close>

text \<open>What remains to be done when the loop has returned.\<close>

definition ls_finish :: "int \<times> app_t \<times> world \<Rightarrow> int \<times> world" where
  "ls_finish = (\<lambda>(rc, app, w).
     let w = log_shutdown rc app w; (app, w) = destroy_loop app w;
         w = (if rc \<noteq> LS_EXIT_SUCCESS
              then ls_error (app_log app) (LS_PROGRAM_NAME @ '' exited with code '' @ show_int rc) w else w);
         (_, w) = app_destroy app w
     in (rc, w))"

definition exit_effect :: "effect \<Rightarrow> bool" where
  "exit_effect e \<longleftrightarrow> is_Stderr e \<or> is_Close_fd e \<or> is_Restore_signals e"

lemma exit_stderr: "evolves is_Stderr w w' \<Longrightarrow> evolves exit_effect w w'"
  and exit_close: "evolves is_Close_fd w w' \<Longrightarrow> evolves exit_effect w w'"
  by (erule evolves_weaken; simp add: exit_effect_def)+

lemma log_shutdown_trace:
  assumes "nt_opened (app_notify app)"
  obtains u b where "trace u = trace w" "world_os u = world_os w" "evolves is_Stderr (emit (Notify_send ''STOPPING=1'' b) u) (log_shutdown rc app w)"
proof -
  obtain b where s: "ls_notify_stopping (app_notify app) w = (b, emit (Notify_send ''STOPPING=1'' b) (w\<lparr>tick := Suc (tick w)\<rparr>))"
    using assms by (auto simp: ls_notify_stopping_def notify_send_def ask_def Let_def)
  have "evolves is_Stderr (emit (Notify_send ''STOPPING=1'' b) (w\<lparr>tick := Suc (tick w)\<rparr>)) (log_shutdown rc app w)"
    unfolding log_shutdown_def s prod.case Let_def
    using log_statistics_evolves evolves_trans by (auto simp: log_evolves)
  then show ?thesis by (intro that [of "w\<lparr>tick := Suc (tick w)\<rparr>" b]) simp_all
qed

lemma ls_finish_facts:
  assumes "ls_finish (rc, app, w) = (rc', w')" "nt_opened (app_notify app)" "app_sound app"
  obtains u b where "rc' = rc" "trace u = trace w" "evolves exit_effect (emit (Notify_send ''STOPPING=1'' b) u) w'"
    "\<And>n. fd_open n w' = fd_open n w - app_holds app n - loop_holds (app_loop app) n"
    "previous_mask_valid (app_loop app) \<Longrightarrow> mask_back (previous_mask (app_loop app)) w'" "world_os w' = world_os w"
proof -
  obtain a2 w2 where d: "destroy_loop app (log_shutdown rc app w) = (a2, w2)" by (metis surj_pair)
  define w3 where "w3 = (if rc \<noteq> LS_EXIT_SUCCESS
    then ls_error (app_log a2) (LS_PROGRAM_NAME @ '' exited with code '' @ show_int rc) w2 else w2)"
  obtain a4 w4 where k: "app_destroy a2 w3 = (a4, w4)" by (metis surj_pair)
  have res: "rc' = rc" "w' = w4" using assms(1) by (simp_all add: ls_finish_def d w3_def [symmetric] k)
  obtain u b where u: "trace u = trace w" "world_os u = world_os w" "evolves is_Stderr (emit (Notify_send ''STOPPING=1'' b) u) (log_shutdown rc app w)"
    by (rule log_shutdown_trace [OF assms(2)])
  note D = destroy_loop_accounting [OF d]
  have W3: "evolves is_Stderr w2 w3" by (auto simp: w3_def)
  have A: "fd_open n w4 = fd_open n w3 - app_holds a2 n" "mask_back m w3 \<Longrightarrow> mask_back m w4" "evolves is_Close_fd w3 w4" for n m
    using app_own.release_holds [OF k] app_own.release_masks(2) [OF k] app_own.release_effects [OF k] assms(3) D(3,4)
    by (simp_all add: app_sound_def)
  have "evolves exit_effect w2 w4"
    by (rule evolves_trans [OF exit_stderr [OF W3] exit_close [OF A(3)]])
  moreover have "evolves exit_effect (log_shutdown rc app w) w2"
    using D(6) unfolding exit_effect_def .
  ultimately have ev: "evolves exit_effect (emit (Notify_send ''STOPPING=1'' b) u) w4"
    using exit_stderr [OF u(3)] evolves_trans by metis
  have c: "fd_open n (log_shutdown rc app w) = fd_open n w" for n
    using accounting_stderr(1) [OF u(3)] u(1) by (simp add: fd_open_def)
  have m: "mask_back (previous_mask (app_loop app)) w4" if "previous_mask_valid (app_loop app)"
    using D(2) that by (intro A(2) accounting_stderr(3) [OF W3]) simp
  show ?thesis
    by (rule that [OF res(1) u(1) _])
      (use ev res(2) A(1) D(1,3,4) c m u(2) evolves_os [OF ev] accounting_stderr(1) [OF W3] in \<open>simp_all add: app_holds_def\<close>)
qed

text \<open>A start-up that fails gives everything back.\<close>

lemma failed_start:
  assumes i: "app_init cfg w0 = (r, app, v)" and k: "app_destroy b v2 = (b', w')"
    and s: "evolves start_effect v v2" "\<And>n. fd_open n v2 = fd_open n v" "mask_back (signal_mask v) v2"
    and b: "app_notify b = app_notify app" "app_icmp b = app_icmp app"
  shows "evolves start_effect w0 w' \<and> (\<forall>n. fd_open n w' = fd_open n w0) \<and> mask_back (signal_mask w0) w'"
proof -
  have "evolves start_effect v2 w'"
    by (rule evolves_weaken [OF app_own.release_effects [OF k]]) (auto simp: start_effect_def is_Close_fd_def)
  then have "evolves start_effect w0 w'"
    by (rule evolves_trans [OF evolves_trans [OF start_evolves(1) [OF acquire_setup [OF app_own.acquire_effects [OF i]]] s(1)]])
  moreover have "fd_open n w' = fd_open n w0" for n
    by (rule app_own.session_balanced [OF i k]) (simp_all add: app_holds_def app_sound_def b s(2))
  ultimately show ?thesis
    using app_own.acquire_masks [OF i] app_own.release_masks(2) [OF k] s(3) by simp
qed

text \<open>The three ways a run can go.\<close>

lemma ls_main_cases:
  obtains (config) e where "ls_config_resolve (world_os w0) = Inl e"
      "ls_main w0 = Some (LS_EXIT_FAILURE, log_fatal_error LS_LOG_ERROR e w0)"
  | (startup) cfg w' where "ls_config_resolve (world_os w0) = Inr cfg" "ls_main w0 = Some (LS_EXIT_FAILURE, w')"
      "evolves start_effect w0 w'" "\<And>n. fd_open n w' = fd_open n w0" "mask_back (signal_mask w0) w'"
      "\<And>a w. \<not> loop_entry w0 cfg a w"
  | (loop) cfg a w where "loop_entry w0 cfg a w" "ls_main w0 = map_option ls_finish (ls_loop_run app_client a w)"
proof (cases "ls_config_resolve (world_os w0)")
  case (Inl e)
  then show ?thesis by (intro config) (simp_all add: ls_main_def)
next
  case c: (Inr cfg)
  obtain r app v where i: "app_init cfg w0 = (r, app, v)" by (metis prod_cases3)
  show ?thesis
  proof (cases r)
    case (Inl e)
    obtain b' w' where k: "app_destroy app (log_fatal_error (log_level cfg) e v) = (b', w')" by (metis surj_pair)
    have "evolves start_effect w0 w' \<and> (\<forall>n. fd_open n w' = fd_open n w0) \<and> mask_back (signal_mask w0) w'"
      by (rule failed_start [OF i k]) (auto simp: log_fatal_error_def start_effect_def mask_back_log)
    then show ?thesis
      by (intro startup [OF c, of w']) (use c i Inl k in \<open>auto simp: ls_main_def loop_entry_def\<close>)
  next
    case (Inr u)
    obtain ok a1 w1 where p: "app_prepare app v = (ok, a1, w1)" by (metis prod_cases3)
    have op: "0 \<le> icmp_sockfd (app_icmp app)"
      using app_own.acquire_sound [OF i] i Inr app_init_ok by (simp add: app_sound_def)
    from p op show ?thesis
    proof (cases rule: app_prepare_cases)
      case failed
      let ?v2 = "ls_error (app_log a1) (LS_PROGRAM_NAME @ '' exited with code '' @ show_int LS_EXIT_FAILURE) w1"
      obtain b' w' where k: "app_destroy a1 ?v2 = (b', w')" by (metis surj_pair)
      have "evolves start_effect w0 w' \<and> (\<forall>n. fd_open n w' = fd_open n w0) \<and> mask_back (signal_mask w0) w'"
        by (rule failed_start [OF i k]) (use failed in \<open>auto simp: start_effect_def mask_back_log\<close>)
      then show ?thesis
        by (intro startup [OF c, of w'])
          (use c i Inr p k failed(1) in \<open>auto simp: ls_main_def app_run_def loop_entry_def LS_EXIT_FAILURE_def LS_EXIT_SUCCESS_def\<close>)
    next
      case ready
      then show ?thesis
        by (intro loop [of cfg a1 w1])
          (use c i Inr p in \<open>simp_all add: loop_entry_def ls_main_def app_run_def ls_finish_def option.map_comp comp_def
            case_prod_unfold Let_def cong: if_cong\<close>)
    qed
  qed
qed

section \<open>From the loop to the end of the process\<close>

lemma entry_main:
  assumes "loop_entry w0 cfg a w"
  shows "ls_main w0 = map_option ls_finish (ls_loop_run app_client a w)"
proof (rule ls_main_cases [of w0])
  fix cfg' a' w' assume e: "loop_entry w0 cfg' a' w'" "ls_main w0 = map_option ls_finish (ls_loop_run app_client a' w')"
  then have "a' = a \<and> w' = w" using assms by (auto simp: loop_entry_def)
  with e(2) show ?thesis by simp
qed (use assms in \<open>auto simp: loop_entry_def\<close>)

lemma accounting_loop:
  assumes "frame_inv a1 w1 a w"
  shows "fd_open n w = fd_open n w1" "app_holds a n = app_holds a1 n"
    "loop_holds (app_loop a) n = loop_holds (app_loop a1) n"
proof -
  have ev: "evolves (run_effect a1) w1 w" using assms by (simp add: frame_inv_def)
  show "fd_open n w = fd_open n w1"
    by (rule accounting_evolves(1) [OF ev]) (auto simp: accounting_neutral_def loop_effect_def split: effect.splits)
  show "app_holds a n = app_holds a1 n" "loop_holds (app_loop a) n = loop_holds (app_loop a1) n"
    using assms by (simp_all add: frame_inv_def same_channels_def app_holds_def loop_holds_def)
qed

lemma main_loop_exit:
  assumes entry: "loop_entry w0 cfg a1 w1" and "ls_main w0 = Some (rc, w')"
  obtains a w u b where "loop_head app_client a1 w1 a w" "frame_inv a1 w1 a w" "stopping (app_loop a)"
    "rc = lp_exit_code (app_loop a)" "trace u = trace w" "evolves exit_effect (emit (Notify_send ''STOPPING=1'' b) u) w'"
    "\<And>n. fd_open n w' = fd_open n w0" "mask_back (signal_mask w0) w'" "world_os w' = world_os w0"
proof -
  obtain c a w where r: "ls_loop_run app_client a1 w1 = Some (c, a, w)" and f: "ls_finish (c, a, w) = (rc, w')"
    using assms(2) unfolding entry_main [OF entry] by auto
  note R = app_lens.run_result [OF r, simplified]
  have fr: "frame_inv a1 w1 a w" by (rule app_frame.inv_head [OF R(1) entry_frame [OF entry]])
  note A = accounting_loop [OF fr]
  from entry show ?thesis
  proof (rule loop_entry_facts)
    fix fd now v assume l: "app_loop a1 = started_loop (signal_mask w0) a1 fd now"
      and ev: "evolves setup_effect w0 v" "evolves quiet (emit (Notify_send ''READY=1'' True) v) w1"
      and op: "nt_opened (app_notify a1)" "0 \<le> nt_sockfd (app_notify a1)" "0 \<le> icmp_sockfd (app_icmp a1)"
      and acc: "\<And>n. fd_open n w1 = fd_open n w0 + app_holds a1 n + loop_holds (app_loop a1) n"
    have "previous_mask_valid (app_loop a1)" "previous_mask (app_loop a1) = signal_mask w0" by (subst l, simp)+
    then have ch: "nt_opened (app_notify a)" "app_sound a" "previous_mask_valid (app_loop a)" "previous_mask (app_loop a) = signal_mask w0"
      using fr op by (simp_all add: frame_inv_def same_channels_def app_sound_def)
    show ?thesis
    proof (rule ls_finish_facts [OF f ch(1,2)])
      fix u b assume "rc = c" "trace u = trace w" "evolves exit_effect (emit (Notify_send ''STOPPING=1'' b) u) w'"
        "\<And>n. fd_open n w' = fd_open n w - app_holds a n - loop_holds (app_loop a) n"
        "previous_mask_valid (app_loop a) \<Longrightarrow> mask_back (previous_mask (app_loop a)) w'" "world_os w' = world_os w"
      moreover have "world_os w = world_os w0"
        using setup_counts(3) [OF ev] fr by (auto simp: frame_inv_def dest: evolves_os)
      ultimately show ?thesis
        using R fr acc A ch(3,4) by (intro that [of a w u b]) simp_all
    qed
  qed
qed

lemma running_main:
  assumes "running w0 cfg a w" "stopping (app_loop a)"
  shows "ls_main w0 = Some (ls_finish (lp_exit_code (app_loop a), a, w))" "fst (ls_finish (lp_exit_code (app_loop a), a, w)) = lp_exit_code (app_loop a)"
proof -
  obtain a1 w1 where e: "loop_entry w0 cfg a1 w1" "loop_head app_client a1 w1 a w"
    using assms(1) by (auto simp: running_def)
  show "ls_main w0 = Some (ls_finish (lp_exit_code (app_loop a), a, w))"
    using entry_main [OF e(1)] app_lens.run_head [OF e(2)] app_lens.run_stopping [of a w] assms(2) by simp
  show "fst (ls_finish (lp_exit_code (app_loop a), a, w)) = lp_exit_code (app_loop a)"
    by (simp add: ls_finish_def Let_def case_prod_unfold)
qed

lemma entry_stats:
  assumes "loop_entry w0 cfg a w"
  shows "\<exists>v. app_stats a = fst (ls_stats_init v)"
proof -
  obtain app v where i: "app_init cfg w0 = (Inr (), app, v)" and p: "app_prepare app v = (True, a, w)"
    using assms by (auto simp: loop_entry_def)
  have "0 \<le> icmp_sockfd (app_icmp app)"
    using app_own.acquire_sound [OF i] app_init_ok [OF i] by (simp add: app_sound_def)
  with p have "app_stats a = app_stats app"
    by (cases rule: app_prepare_cases) (auto dest: core_agree(9))
  with i show ?thesis by (cases rule: app_init_stages) auto
qed

text \<open>The trace at a loop head: set-up, READY, and then what a running monitor may do.\<close>

lemma running_trace:
  assumes "running w0 cfg a w"
  obtains u mid tgt where "evolves setup_effect w0 u" "trace w = trace u @ [Notify_send ''READY=1'' True] @ mid"
    "ls_addr_parse (world_os w0) (Some (target cfg)) = Inr tgt" "list_all (loop_effect (poweroff cfg) tgt) mid"
proof -
  obtain a1 w1 where e: "loop_entry w0 cfg a1 w1" "frame_inv a1 w1 a w" using running_frame [OF assms] by metis
  from e(1) show ?thesis
  proof (rule loop_entry_facts)
    fix u assume u: "evolves setup_effect w0 u" "evolves quiet (emit (Notify_send ''READY=1'' True) u) w1" and cfg: "app_config a1 = cfg"
      and tgt: "ls_addr_parse (world_os w0) (Some (target cfg)) = Inr (app_dest a1, app_dest_len a1)"
    have "evolves (run_effect a1) (emit (Notify_send ''READY=1'' True) u) w1"
      by (rule loop_evolves(2) [OF u(2)])
    moreover have "evolves (run_effect a1) w1 w" using e(2) by (simp add: frame_inv_def)
    ultimately have "evolves (run_effect a1) (emit (Notify_send ''READY=1'' True) u) w" by (rule evolves_trans)
    then obtain mid where "trace w = trace u @ [Notify_send ''READY=1'' True] @ mid" "list_all (run_effect a1) mid"
      by (auto simp: evolves_def)
    with u(1) tgt cfg show ?thesis by (intro that) auto
  qed
qed

lemma running_start: "loop_entry w0 cfg a w \<Longrightarrow> running w0 cfg a w"
  unfolding running_def by (metis loop_head.start)

lemma running_pass:
  "running w0 cfg a w \<Longrightarrow> \<not> stopping (app_loop a) \<Longrightarrow> loop_body app_client a w = (brk, a', w') \<Longrightarrow> running w0 cfg a' w'"
  unfolding running_def by (metis loop_head.pass app_client_simps(1))

text \<open>What follows the loop adds no probe and no command.\<close>

lemma exit_counts:
  assumes run: "running w0 cfg a w" and stop: "stopping (app_loop a)"
  obtains w' where "ls_main w0 = Some (lp_exit_code (app_loop a), w')" "spawns w' = spawns w" "echoes w' = echoes w"
proof -
  obtain a1 w1 where e: "loop_entry w0 cfg a1 w1" "frame_inv a1 w1 a w" using running_frame [OF run] by metis
  from e(1) have ch: "nt_opened (app_notify a)" "app_sound a"
    by (rule loop_entry_facts, use e(2) in \<open>simp add: frame_inv_def same_channels_def app_sound_def\<close>)+
  obtain rc w' where f: "ls_finish (lp_exit_code (app_loop a), a, w) = (rc, w')" by (metis surj_pair)
  obtain u b where u: "rc = lp_exit_code (app_loop a)" "trace u = trace w" "evolves exit_effect (emit (Notify_send ''STOPPING=1'' b) u) w'"
    by (rule ls_finish_facts [OF f ch])
  have "spawns w' = spawns w" "echoes w' = echoes w"
    using evolves_counts(1,2) [OF u(3)] u(2) by (auto simp: exit_effect_def spawns_def echoes_def)
  with running_main(1) [OF run stop] f u(1) show ?thesis by (intro that [of w']) auto
qed

end
