(* ===== verification/LS_Ready.thy ===== *)
theory LS_Ready
  imports LS_Life
begin

text \<open>
  Start-up that succeeds: \<open>host_ready\<close> collects what the daemon needs from the host, \<open>startup_entry\<close>
  shows that it is enough for the event loop to be reached. A sample host and its configuration serve the
  witnesses of the whole-run properties.
\<close>

section \<open>Start-up on a host that cooperates\<close>

text \<open>A systemd notification socket is configured and reachable, descriptors are to be had, the signal
  mask can be changed and the clock can be read. Whether the kernel takes the packet filter does not
  matter.\<close>

definition host_ready :: "os \<Rightarrow> bool" where
  "host_ready sys \<longleftrightarrow>
     (\<exists>path. os_getenv sys ''NOTIFY_SOCKET'' = Some path \<and> build_socket_addr path \<noteq> None) \<and>
     (\<forall>n. \<exists>fd. os_socket sys n = Inr fd) \<and> (\<forall>n. os_connect sys n = None) \<and> (\<forall>n. \<exists>k. settle (os_send sys n) = Inr k) \<and>
     (\<forall>n. os_sigprocmask sys n = None) \<and> (\<forall>n. \<exists>fd. os_signalfd sys n = Inr fd) \<and> (\<forall>n. coarse_ms sys n \<noteq> UINT64_MAX)"

lemma notify_init_ready:
  assumes "host_ready (world_os v)"
  shows "fst (ls_notify_init v) = Inr ()"
proof -
  obtain path sp len where p: "os_getenv (world_os v) ''NOTIFY_SOCKET'' = Some path" "build_socket_addr path = Some (sp, len)"
    using assms by (auto simp: host_ready_def)
  obtain fd where "os_socket (world_os v) (tick v) = Inr fd" using assms unfolding host_ready_def by blast
  then show ?thesis
    using assms p by (simp add: ls_notify_init_def Let_def ask_def host_ready_def)
qed

lemma icmp_open_ready:
  assumes "host_ready (world_os v)" "family = AF_INET \<or> family = AF_INET6"
  shows "fst (ls_icmp_open family i v) = Inr ()"
proof -
  obtain fd where "os_socket (world_os v) (tick v) = Inr fd" using assms(1) unfolding host_ready_def by blast
  then show ?thesis
    using assms(2) by (auto simp: ls_icmp_open_def Let_def ask_def split: prod.splits)
qed

lemma app_init_ready:
  assumes "host_ready sys" "config_ok sys cfg" "app_init cfg (boot sys) = (r, app, v)"
  shows "r = Inr ()"
  using assms(3)
proof (cases rule: app_init_stages)
  case (addr e)
  then show ?thesis using assms(2) by (simp add: config_ok_def ls_addr_parse_is_literal)
next
  case (notify e u)
  then show ?thesis using notify_init_ready [of u] assms(1) by (simp add: evolves_def)
next
  case (icmp e u u2 dest len)
  have "world_os u2 = sys" using notify_own.acquire_os [OF icmp(3)] icmp(2) by (simp add: evolves_def)
  then show ?thesis
    using icmp_open_ready [of u2 "ss_family dest"] ls_addr_parse_Inr(1) [OF icmp(5)] assms(1) icmp(4)
    by (metis Inl_Inr_False fst_conv)
qed

lemma wire_loop_ready:
  assumes "host_ready (world_os v)" "0 \<le> icmp_sockfd (app_icmp app)" "wire_loop (app\<lparr>app_loop := ls_loop_init lg\<rparr>) v = (r, a, w)"
  shows "r = Inr ()"
proof -
  obtain fd where "os_signalfd (world_os v) (Suc (tick v)) = Inr fd" using assms(1) unfolding host_ready_def by blast
  then show ?thesis
    using assms by (simp add: host_ready_def wire_loop_def ls_loop_watch_signals_def ls_loop_add_fd_def ls_loop_add_timer_def
        ls_loop_init_def LS_LOOP_MAX_FDS_def LS_LOOP_MAX_TIMERS_def Let_def ask_def)
qed

lemma log_startup_ready:
  assumes "log_startup a w = (ok, a', w')" "nt_opened (app_notify a)" "host_ready (world_os w)"
  shows ok
proof -
  have "fst (ls_notify_ready (app_notify a) v)" if "world_os v = world_os w" for v
  proof -
    obtain k where "settle (os_send (world_os w) (tick v)) = Inr k" using assms(3) unfolding host_ready_def by blast
    with assms(2) that show ?thesis by (simp add: ls_notify_ready_def notify_send_def ask_def Let_def)
  qed
  moreover have "world_os (ls_info (app_log a) t w) = world_os w" for t
    by (simp add: evolves_os [of is_Stderr w "ls_info (app_log a) t w"] log_evolves)
  ultimately have "fst (ls_notify_ready (app_notify a) (ls_info (app_log a) t w))" for t by blast
  with assms(1) show ?thesis
    using log_startup_form [of a w] by (auto simp: Let_def case_prod_unfold)
qed

lemma startup_entry:
  assumes c: "ls_config_resolve sys = Inr cfg" and h: "host_ready sys"
  shows "\<exists>a w. loop_entry (boot sys) cfg a w"
proof -
  obtain r app v where i: "app_init cfg (boot sys) = (r, app, v)" by (metis prod_cases3)
  have r: "r = Inr ()" by (rule app_init_ready [OF h ls_config_resolve_ok [OF c] i])
  have os: "world_os v = sys" using app_own.acquire_os [OF i] by simp
  have op: "nt_opened (app_notify app)" "0 \<le> icmp_sockfd (app_icmp app)"
    using i r app_init_ok app_own.acquire_sound [OF i] by (auto simp: app_sound_def)
  obtain r1 a1 w1 where wl: "wire_loop (app\<lparr>app_loop := ls_loop_init (app_log app)\<rparr>) v = (r1, a1, w1)" by (metis prod_cases3)
  have r1: "r1 = Inr ()" by (rule wire_loop_ready [OF _ op(2) wl]) (simp add: os h)
  from wl op(2) have "app_notify a1 = app_notify app \<and> world_os w1 = sys"
    by (cases rule: wire_loop_cases) (use os in \<open>auto simp: evolves_def\<close>)
  moreover obtain ok a w where p: "app_prepare app v = (ok, a, w)" by (metis prod_cases3)
  ultimately have ok
    using wl r1 op(1) h
    by (auto simp: app_prepare_def ls_now_ms_coarse host_ready_def Let_def split: prod.splits if_splits dest: log_startup_ready)
  then show ?thesis
    using i p r c by (auto simp: loop_entry_def)
qed

section \<open>A sample run\<close>

text \<open>The sample system under systemd, with a start delay; SIGTERM is pending when the loop first
  polls.\<close>

definition demo_os :: os where
  "demo_os = sample_os\<lparr>os_getenv := [''NOTIFY_SOCKET'' \<mapsto> ''@n'', ''LINKSTAY_START_DELAY'' \<mapsto> ''5s''], os_poll := (\<lambda>_ _. Inr [1])\<rparr>"

definition demo_cfg :: ls_config_t where
  "demo_cfg = load_defaults\<lparr>start_delay_ms := 5000\<rparr>"

lemma demo_os_simps [simp]:
  "os_getenv demo_os v = (if v = ''NOTIFY_SOCKET'' then Some ''@n'' else if v = ''LINKSTAY_START_DELAY'' then Some ''5s'' else None)"
  "os_poll demo_os n t = Inr [1]"
  "os_clock_coarse demo_os n = Some \<lparr>tv_sec = 3600, tv_nsec = 0\<rparr>" "os_signalfd demo_os n = Inr 6"
  "os_clock_mono demo_os n = Some \<lparr>tv_sec = 3600, tv_nsec = 0\<rparr>"
  "os_socket demo_os n = Inr 5" "os_setsockopt demo_os n = None" "os_connect demo_os n = None"
  "os_send demo_os n = Completed (Inr 7)" "os_sendto demo_os n = Completed (Inr 64)"
  "os_sigprocmask demo_os n = None" "os_sigread demo_os n = Some 15"
  "os_inet_pton demo_os AF_INET ''1.1.1.1'' = Some [1, 1, 1, 1]" "os_getpid demo_os = 4242"
  by (auto simp: demo_os_def)

lemma demo_coarse: "coarse_ms demo_os n = 3600000"
  by (simp add: coarse_ms_def timespec_ms_def ls_add_sat_def UINT64_MAX_def LS_MS_PER_SEC_def LS_NS_PER_MS_def)

lemma demo_clock: "clock_sane demo_os"
  using demo_coarse by (simp add: clock_sane_def coarse_ms_def)

lemma demo_now: "world_os w = demo_os \<Longrightarrow> ls_now_ms w = (3600000, w\<lparr>tick := Suc (tick w)\<rparr>)"
  by (simp add: ls_now_ms_coarse demo_coarse)

lemma demo_delay: "apply_duration ''LINKSTAY_START_DELAY'' (Some ''5s'') True (word_of_int INT_MAX) = Inr 5000"
  by (simp add: apply_duration_def has_unsigned_shape_def is_space_def c_strtoull_def is_digit_def read_nat_def digit_value_def ckd_mul_def
      LS_MS_PER_SEC_def INT_MAX_def Let_def)

lemma demo_config: "ls_config_resolve demo_os = Inr demo_cfg"
  by (simp add: ls_config_resolve_def load_env_def ENV_SPECS_def validate_def load_defaults_eq apply_start_delay_def store_def
      demo_delay demo_cfg_def ls_addr_is_literal_def ls_addr_parse_def)

lemma demo_ready: "host_ready demo_os"
  using demo_coarse by (simp add: host_ready_def build_socket_addr_def sizeof_sun_path_def UINT64_MAX_def Let_def)

lemma demo_entry: "\<exists>a w. loop_entry (boot demo_os) demo_cfg a w"
  by (rule startup_entry [OF demo_config demo_ready])

end
