(* ===== verification/LS_Signals.thy ===== *)
theory LS_Signals
  imports LS_Ready
begin

text \<open>
  Signals: a pass of the loop that finds SIGINT or SIGTERM pending ends the process with success.
\<close>

section \<open>Signals\<close>

text \<open>The signal that a pass of the loop from this state reads, if its poll reports the signal channel
  readable and free of error conditions.\<close>

definition pass_signal :: "app_t \<Rightarrow> world \<Rightarrow> nat option" where
  "pass_signal a w =
     (let (ok, l, w) = refresh_now (app_loop a) w
      in if \<not> ok then None
         else let (a, w) = fire_timers app_client (set_app_loop l a, w)
              in if stopping (app_loop a) then None
                 else case os_poll (world_os w) (tick w) (poll_timeout_ms (app_loop a)) of
                        Inl _ \<Rightarrow> None
                      | Inr rs \<Rightarrow>
                          (if rs \<noteq> [] \<and> hd rs AND POLLIN \<noteq> 0 \<and> hd rs AND (POLLERR OR POLLHUP OR POLLNVAL) = 0 \<and>
                              fst (ls_now_ms (w\<lparr>tick := Suc (tick w)\<rparr>)) \<noteq> UINT64_MAX
                           then os_sigread (world_os w) (Suc (Suc (tick w))) else None))"

text \<open>What a pass polls once its timers have fired.\<close>

lemma fired_slots:
  assumes run: "running w0 cfg a w" "\<not> stopping (app_loop a)" and r: "refresh_now (app_loop a) w = (ok, l, v)"
    and f: "fire_timers app_client (set_app_loop l a, v) = (a2, w2)"
  obtains p q where "fds (app_loop a2) = [p, q]" "fd_cb p = Dispatch_signal_fd" "signal_cb (app_loop a2) = Some On_signal"
proof -
  obtain a0 v0 where e: "loop_entry w0 cfg a0 v0" "frame_inv a0 v0 a w" using running_frame [OF run(1)] by metis
  have "frame_inv a0 v0 (set_app_loop l a) v"
    using app_frame.inv_refresh [of a0 v0 a w ok l v] e(2) run(2) r by simp
  then have F: "frame_inv a0 v0 a2 w2"
    using app_frame.inv_fire f unfolding fire_timers_def by blast
  from e(1) obtain fd where src: "fd_sources (fds (app_loop a0)) = [(int fd, Dispatch_signal_fd, True),
      (icmp_sockfd (app_icmp a0), Fd_cb On_icmp_readable, False)]" "signal_cb (app_loop a0) = Some On_signal"
    by (rule loop_entry_facts) (metis started_loop_simps(6,9))
  have "fd_sources (fds (app_loop a2)) = fd_sources (fds (app_loop a0))" "signal_cb (app_loop a2) = Some On_signal"
    using F src(2) by (simp_all add: frame_inv_def same_channels_def)
  with src(1) that show ?thesis by (auto simp: fd_sources_def map_eq_Cons_conv)
qed

lemma pass_signal_stops:
  assumes run: "running w0 cfg a w" "\<not> stopping (app_loop a)" and sig: "pass_signal a w = Some signo" "signo = SIGINT \<or> signo = SIGTERM"
  obtains brk a' w' where "loop_body app_client a w = (brk, a', w')" "stopping (app_loop a')" "lp_exit_code (app_loop a') = LS_EXIT_SUCCESS"
proof -
  obtain ok l1 w1 where r1: "refresh_now (app_loop a) w = (ok, l1, w1)" by (metis prod_cases3)
  obtain a2 w2 where f: "fire_timers app_client (set_app_loop l1 a, w1) = (a2, w2)" by (metis surj_pair)
  note S = sig(1) [unfolded pass_signal_def r1 prod.case Let_def f]
  obtain rs where c: "ok" "\<not> stopping (app_loop a2)"
    "os_poll (world_os w2) (tick w2) (poll_timeout_ms (app_loop a2)) = Inr rs" "rs \<noteq> []" "hd rs AND POLLIN \<noteq> 0"
    "hd rs AND (POLLERR OR POLLHUP OR POLLNVAL) = 0" "fst (ls_now_ms (w2\<lparr>tick := Suc (tick w2)\<rparr>)) \<noteq> UINT64_MAX"
    "os_sigread (world_os w2) (Suc (Suc (tick w2))) = Some signo"
    using S by (auto split: if_splits sum.splits)
  obtain p q where pq: "fds (app_loop a2) = [p, q]" "fd_cb p = Dispatch_signal_fd" and cb: "signal_cb (app_loop a2) = Some On_signal"
    by (rule fired_slots [OF run r1 f])
  define w3 where "w3 = w2\<lparr>tick := Suc (tick w2)\<rparr>"
  obtain t w4 where n: "ls_now_ms w3 = (t, w4)" by (metis surj_pair)
  have w4: "w4 = w3\<lparr>tick := Suc (tick w3)\<rparr>" using ls_now_ms_D [OF n] .
  have t: "t \<noteq> UINT64_MAX" using c(7) n by (simp add: w3_def)
  define l4 where "l4 = (app_loop a2)\<lparr>fds := set_revents rs (fds (app_loop a2)), now_ms := t\<rparr>"
  have slots: "fds l4 = [p\<lparr>poll_revents := hd rs\<rparr>, q\<lparr>poll_revents := (if 1 < length rs then rs ! 1 else 0)\<rparr>]"
    using c(4) by (simp add: l4_def pq(1) set_revents_def hd_conv_nth)
  have "hd rs \<noteq> 0" using c(5) by auto
  then have ready: "0 < ready_count (set_revents rs (fds (app_loop a2)))"
    using slots by (simp add: ready_count_def l4_def)
  have r4: "refresh_now ((app_loop a2)\<lparr>fds := set_revents rs (fds (app_loop a2))\<rparr>) w3 = (True, l4, w4)"
    using n t by (simp add: refresh_now_def l4_def)
  have set_set: "set_app_loop x (set_app_loop y b) = set_app_loop x b" for x y b by (simp add: set_app_loop_def)
  have "loop_body app_client a w =
      (case dispatch_fds app_client (set_app_loop l4 a2, w4) of (a', w') \<Rightarrow> (False, a', w'))"
    using c(1-3) ready r4
    by (simp add: loop_body_def r1 f ask_def w3_def [symmetric] set_set Let_def)
  moreover have "dispatch_fds app_client (set_app_loop l4 a2, w4) =
      (app_stop LS_EXIT_SUCCESS (set_app_loop l4 a2), w4\<lparr>tick := Suc (tick w4)\<rparr>)"
    using c(2,4-6,8) slots sig(2) cb pq(2)
    by (auto simp: dispatch_fds_def LS_LOOP_MAX_FDS_def upt_rec set_app_loop_def l4_def [symmetric] dispatch_signal_fd_def
      ask_def w4 w3_def Let_def) (auto simp: l4_def on_signal_def)
  ultimately show ?thesis by (intro that) auto
qed

lemma demo_idle:
  assumes "app_config a = demo_cfg" "i < 3"
  shows "\<not> timer_due ((started_loop m a fd 3600000)\<lparr>now_ms := 3600000\<rparr>) i"
proof -
  let ?wd = "ls_notify_watchdog_interval_ms (app_notify a)"
  have "\<not> ls_add_sat 3600000 ?wd \<le> 3600000" if "0 < ?wd"
    using that watchdog_interval_bound [of "app_notify a"] by (simp add: word_le_nat_alt word_less_nat_alt unat_ls_add_sat)
  moreover have "\<not> ls_add_sat 3600000 5000 \<le> (3600000 :: u64)"
    by (simp add: word_le_nat_alt unat_ls_add_sat)
  moreover have "i = 0 \<or> i = 1 \<or> i = 2" using assms(2) by auto
  ultimately show ?thesis
    using assms(1) by (auto simp: timer_due_def started_loop_def wired_loop_def Let_def ls_timer_arm_after_def ls_timer_armed_def
        demo_cfg_def)
qed

lemma demo_pass:
  assumes "loop_entry (boot demo_os) demo_cfg a w"
  shows "pass_signal a w = Some SIGTERM \<and> \<not> stopping (app_loop a)"
  using assms
proof (rule loop_entry_facts)
  fix fd now u
  assume cfg: "app_config a = demo_cfg" and l: "app_loop a = started_loop (signal_mask (boot demo_os)) a fd now" and n: "\<exists>n. now = coarse_ms (world_os (boot demo_os)) n"
    and ev: "evolves setup_effect (boot demo_os) u" "evolves quiet (emit (Notify_send ''READY=1'' True) u) w"
  have os: "world_os w = demo_os" using setup_counts(3) [OF ev] by simp
  have now: "now = 3600000" using n by (auto simp: demo_coarse)
  define l1 where "l1 = (app_loop a)\<lparr>now_ms := 3600000\<rparr>"
  have st: "\<not> stopping (app_loop a)" "\<not> stopping l1" by (simp_all add: l1_def l)
  have idle: "\<not> timer_due l1 i" if "i < 3" for i
    using demo_idle [OF cfg that, of "signal_mask (boot demo_os)" fd] l now by (simp add: l1_def)
  have "length (timers l1) = 3" by (simp add: l1_def l started_loop_def Let_def)
  then have fire: "fire_timers app_client (set_app_loop l1 a, v) = (set_app_loop l1 a, v)" for v
    using st(2) idle [of 0] idle [of 1] idle [of 2]
    by (auto simp: fire_timers_def LS_LOOP_MAX_TIMERS_def upt_rec set_app_loop_def Let_def numeral_2_eq_2)
  have "refresh_now (app_loop a) w = (True, l1, w\<lparr>tick := Suc (tick w)\<rparr>)"
    using os by (simp add: refresh_now_def demo_now UINT64_MAX_def l1_def)
  then show ?thesis
    using st os
    by (simp add: pass_signal_def fire) (simp add: set_app_loop_def demo_now UINT64_MAX_def SIGTERM_def POLLIN_def
        POLLERR_def POLLHUP_def POLLNVAL_def)
qed

lemma signal_exits:
  assumes "running w0 cfg a w" "\<not> stopping (app_loop a)" "pass_signal a w = Some signo" "signo = SIGINT \<or> signo = SIGTERM"
  shows "\<exists>w'. ls_main w0 = Some (LS_EXIT_SUCCESS, w')"
proof -
  obtain brk a' w' where b: "loop_body app_client a w = (brk, a', w')" "stopping (app_loop a')"
    "lp_exit_code (app_loop a') = LS_EXIT_SUCCESS"
    by (rule pass_signal_stops [OF assms])
  show ?thesis
    using running_main [OF running_pass [OF assms(1,2) b(1)] b(2)] b(3) by (metis prod.collapse)
qed

lemma demo_exits: "\<exists>w. ls_main (boot demo_os) = Some (LS_EXIT_SUCCESS, w)"
proof -
  obtain a w where e: "loop_entry (boot demo_os) demo_cfg a w" using demo_entry by blast
  show ?thesis
    using signal_exits [OF running_start [OF e]] demo_pass [OF e] by blast
qed

end
