(* ===== verification/LS_Outage.thy ===== *)
theory LS_Outage
  imports LS_Ready
begin

text \<open>
  An outage from beginning to end: what the daemon does when the network never answers. The
  assumptions are those on the host, not on the daemon: nothing arrives, the kernel takes echo
  requests or refuses them for a network reason, the clock is monotonic and moves on while the daemon
  sleeps, and \<^verbatim>\<open>systemctl\<close>, if it is needed, works.
\<close>

section \<open>The host during an outage\<close>

definition silent :: "os \<Rightarrow> bool" where
  "silent sys \<longleftrightarrow>
     (\<forall>n. os_recvfrom sys n = Inl EAGAIN) \<and>
     (\<forall>n. send_status LS_PACKET_SIZE (settle (os_sendto sys n)) \<noteq> LS_ICMP_SEND_ERROR) \<and>
     (\<forall>n t. os_poll sys n t = Inr [])"

definition clock_steady :: "os \<Rightarrow> bool" where
  "clock_steady sys \<longleftrightarrow>
     (\<forall>n. unat (coarse_ms sys n) < 9223372036854775808) \<and> (\<forall>n. coarse_ms sys n \<le> coarse_ms sys (Suc n))"

definition systemctl_works :: "os \<Rightarrow> bool" where
  "systemctl_works sys \<longleftrightarrow>
     (\<forall>n. os_file_actions sys n = None) \<and> (\<forall>n. \<exists>pid. os_spawn sys n = Inr pid) \<and>
     (\<forall>n. os_child sys n = Wait_status (WIFEXITED 0))"

definition outage_host :: "os \<Rightarrow> ls_config_t \<Rightarrow> bool" where
  "outage_host sys cfg \<longleftrightarrow>
     silent sys \<and> clock_steady sys \<and> (poweroff cfg \<longrightarrow> systemctl_works sys) \<and> config_ok sys cfg"

lemma clock_steady_mono: "clock_steady sys \<Longrightarrow> m \<le> n \<Longrightarrow> coarse_ms sys m \<le> coarse_ms sys n"
  unfolding clock_steady_def by (rule lift_Suc_mono_le) auto

lemma clock_steady_reading:
  assumes "clock_steady sys"
  shows "coarse_ms sys n \<noteq> UINT64_MAX" "clock_sane sys"
proof -
  have b: "unat (coarse_ms sys n) < 9223372036854775808" for n
    using assms by (simp add: clock_steady_def)
  show "coarse_ms sys n \<noteq> UINT64_MAX"
    using b [of n] by (auto simp: not_UINT64_MAX_iff)
  show "clock_sane sys"
    unfolding clock_sane_def using b by (metis coarse_ms_def option.simps(5))
qed

section \<open>Silence and the threshold action\<close>

lemma drain_silent:
  assumes "icmp_usable (app_icmp app) (app_dest app)" "silent (world_os w)"
  shows "drain_and_match_reply app w = (False, app, w\<lparr>tick := Suc (tick w)\<rparr>)"
  using assms by (auto simp: drain_and_match_reply_def LS_MAX_REPLY_DRAIN_PER_WAKEUP_def numeral_eq_Suc ls_icmp_recv_def
      icmp_usable_def silent_def ask_def)

lemma on_reply_silent:
  assumes "icmp_usable (app_icmp app) (app_dest app)" "silent (world_os w)" "\<not> stopping (app_loop app)"
    "on_reply_timer app w = (app', w')"
  obtains b v where "evolves quiet w v" "check_threshold b v = (app', w')"
    "core b = core ((probe_reset app)\<lparr>consecutive_fails := consecutive_fails app + 1,
       app_stats := ls_stats_add_fail (app_stats app)\<rparr>)"
proof -
  let ?w = "w\<lparr>tick := Suc (tick w)\<rparr>"
  obtain reason b v where p: "probe_failed reason (probe_reset app) ?w = (b, v)" "check_threshold b v = (app', w')"
    using assms(3,4) by (auto simp: on_reply_timer_def drain_silent [OF assms(1,2)] ls_loop_stopping_def Let_def split: prod.splits)
  have "evolves quiet w ?w" by auto
  then have "evolves quiet w v" using probe_failed_frame(2) [OF p(1)] by (rule evolves_trans)
  then show ?thesis
    by (rule that [OF _ p(2)]) (use probe_failed_frame(1) [OF p(1)] in \<open>simp add: probe_reset_def Let_def\<close>)
qed

lemma counts_deeds: "spawns w = length (filter is_Spawn (deeds w))" "echoes w = length (filter is_Echo_send (deeds w))"
  by (auto simp: spawns_def echoes_def deeds_def intro!: arg_cong [of _ _ length] filter_cong)

lemma prepare_stdio_works:
  "\<forall>n. os_file_actions (world_os w) n = None \<Longrightarrow> prepare_stdio k w = (None, w\<lparr>tick := tick w + k\<rparr>)"
  by (induction k arbitrary: w) (simp_all add: ask_def)

lemma spawn_works:
  assumes "systemctl_works (world_os w)" "clock_steady (world_os w)"
  shows "fst (spawn_shutdown_command lg w) = LS_ACTION_TRIGGERED"
proof -
  obtain pid where "os_spawn (world_os w) (tick w + 4) = Inr pid"
    using assms(1) unfolding systemctl_works_def by blast
  then show ?thesis
    using assms(1) clock_steady_reading(1) [OF assms(2)]
    by (simp add: spawn_shutdown_command_def systemctl_works_def prepare_stdio_works ask_def observe_startup_def
        ls_now_ms_coarse consume_child_status_def Let_def eval_nat_numeral)
qed

lemma threshold_acts:
  assumes "check_threshold b v = (a', w')" "fail_threshold (app_config b) \<le> consecutive_fails b"
    "poweroff (app_config b) \<longrightarrow> systemctl_works (world_os v)" "clock_steady (world_os v)"
  shows "a' = app_stop LS_EXIT_SUCCESS b \<and> spawns w' = spawns v + (if poweroff (app_config b) then 1 else 0) \<and>
    echoes w' = echoes v \<and> world_os w' = world_os v"
  using assms(1)
proof (cases rule: check_threshold_cases)
  case dry
  then show ?thesis using stderr_counts [OF dry(4)] by simp
next
  case attempt
  let ?w = "ls_warn (app_log b) ''Failure threshold reached; triggering system shutdown now'' v"
  have W: "world_os ?w = world_os v" "deeds ?w = deeds v"
    by (simp_all add: evolves_os [of is_Stderr v ?w] log_evolves)
  obtain u where sp: "spawn_shutdown_command (app_log b) ?w = (LS_ACTION_TRIGGERED, u)"
    using spawn_works [of ?w "app_log b"] assms(3,4) attempt(2) W(1) by (metis prod.collapse)
  have "a' = app_stop LS_EXIT_SUCCESS b" "deeds w' = deeds u"
    using assms(1) attempt(1,2) sp by (auto simp: check_threshold_def run_shutdown_action_def)
  moreover obtain pid where "deeds u = deeds v @ [Spawn LS_SYSTEMCTL_PATH SHUTDOWN_ARGV SHUTDOWN_ENVP, Reap_child pid]"
    by (rule spawn_triggered [OF sp]) (simp add: W(2))
  ultimately show ?thesis
    using attempt(2) attempt_counts(3) [OF attempt(4)] by (simp add: counts_deeds)
qed (use assms(2) in simp)

section \<open>The invariant of an outage\<close>

text \<open>In an outage every echo request but the outstanding one has ended as a failure, no command is
  spawned before the threshold, and the loop stops only because the threshold was reached and the
  action was carried out. \<open>t\<close> is the time of the current pass.\<close>

definition outage_inv :: "os \<Rightarrow> ls_config_t \<Rightarrow> u64 \<Rightarrow> app_t \<Rightarrow> world \<Rightarrow> bool" where
  "outage_inv sys cfg t a w \<longleftrightarrow>
     outage_host sys cfg \<and> world_os w = sys \<and> app_wired cfg a \<and> now_ms (app_loop a) = t \<and>
     icmp_usable (app_icmp a) (app_dest a) \<and> unat (deadline_ms (timers (app_loop a) ! 2)) \<le> 9223374184338422807 \<and>
     int (echoes w) = consecutive_fails a + (if reply_armed a then 1 else 0) \<and> lp_exit_code (app_loop a) = LS_EXIT_SUCCESS \<and>
     (if stopping (app_loop a)
      then consecutive_fails a = fail_threshold cfg \<and> \<not> reply_armed a \<and> spawns w = (if poweroff cfg then 1 else 0)
      else 0 \<le> consecutive_fails a \<and> consecutive_fails a < fail_threshold cfg \<and> spawns w = 0)"

text \<open>What every callback of an outage raises.\<close>

definition potential :: "app_t \<Rightarrow> nat" where
  "potential a = unat (deadline_ms (timers (app_loop a) ! 0)) + unat (deadline_ms (timers (app_loop a) ! 2)) +
     nat (consecutive_fails a)"

lemma outage_cong:
  assumes "core a = core b"
  shows "outage_inv sys cfg t a w = outage_inv sys cfg t b w" "potential a = potential b"
  using usable_agree [OF assms, of "app_dest b"]
  by (simp_all add: outage_inv_def potential_def app_wired_cong [OF assms] core_agree [OF assms])

lemma wired_length: "app_wired cfg a \<Longrightarrow> length (timers (app_loop a)) = 3"
  by (auto simp: app_wired_def map_eq_Cons_conv)

text \<open>The step every failed probe takes: \<open>b\<close> is the state with the failure already counted.\<close>

lemma outage_failure:
  assumes host: "outage_host sys cfg" "world_os v = sys"
    and wired: "app_wired cfg b" "now_ms (app_loop b) = t" "lp_exit_code (app_loop b) = LS_EXIT_SUCCESS"
    and ch: "icmp_usable (app_icmp b) (app_dest b)" "unat (deadline_ms (timers (app_loop b) ! 2)) \<le> 9223374184338422807"
    and st: "\<not> reply_armed b" "\<not> stopping (app_loop b)" "0 \<le> consecutive_fails b" "consecutive_fails b \<le> fail_threshold cfg"
    and cnt: "int (echoes v) = consecutive_fails b" "spawns v = 0" and ct: "check_threshold b v = (a', w')"
  shows "outage_inv sys cfg t a' w'" "stopping (app_loop a') \<or> potential a' = potential b"
proof -
  have cfg: "app_config b = cfg" using wired(1) by (simp add: app_wired_def)
  have "outage_inv sys cfg t a' w' \<and> (stopping (app_loop a') \<or> potential a' = potential b)"
  proof (cases "consecutive_fails b < fail_threshold cfg")
    case True
    then have "a' = b" "w' = v" using ct by (simp_all add: check_threshold_def cfg)
    with True assms show ?thesis by (simp add: outage_inv_def)
  next
    case False
    have h: "poweroff cfg \<longrightarrow> systemctl_works sys" "clock_steady sys" using host(1) by (simp_all add: outage_host_def)
    have "a' = app_stop LS_EXIT_SUCCESS b \<and> spawns w' = spawns v + (if poweroff cfg then 1 else 0) \<and>
        echoes w' = echoes v \<and> world_os w' = world_os v"
      using threshold_acts [OF ct] False h host(2) by (simp add: cfg)
    with False assms show ?thesis by (simp add: outage_inv_def)
  qed
  then show "outage_inv sys cfg t a' w'" "stopping (app_loop a') \<or> potential a' = potential b" by blast+
qed

lemma on_watchdog_outage:
  assumes inv: "outage_inv sys cfg t a w" and run: "\<not> stopping (app_loop a)" and due: "timer_due (app_loop a) 0"
    and wd: "on_watchdog_timer a w = (a', w')"
  shows "outage_inv sys cfg t a' w' \<and> potential a < potential a'"
proof -
  have wired: "app_wired cfg a" using inv by (simp add: outage_inv_def)
  have idx: "watchdog_timer a = 0" "reply_timer a = 1" using wired by (simp_all add: app_wired_def)
  obtain f b where a': "a' = (upd_timer f (watchdog_timer a) a)\<lparr>watchdog_last_failed := b\<rparr>" and f: "\<And>t. timer_cb (f t) = timer_cb t"
    using on_watchdog_timer_frame(1) [OF wd] by (metis timer_cb_ops(2))
  have "spawns w' = spawns w" "echoes w' = echoes w" "world_os w' = world_os w"
    by (rule evolves_counts [OF on_watchdog_timer_frame(2) [OF wd]]; auto)+
  then have "outage_inv sys cfg t a' w'"
    using inv idx f run by (simp add: a' outage_inv_def)
  moreover have "potential a < potential a'"
    using watchdog_progress [OF wired due wd] idx by (simp add: a' potential_def word_less_nat_alt)
  ultimately show ?thesis by blast
qed

lemma on_reply_outage:
  assumes inv: "outage_inv sys cfg t a w" and run: "\<not> stopping (app_loop a)" "reply_armed a" and rt: "on_reply_timer a w = (a', w')"
  shows "outage_inv sys cfg t a' w' \<and> (stopping (app_loop a') \<or> potential a < potential a')"
proof -
  have I: "outage_host sys cfg" "world_os w = sys" "app_wired cfg a" "now_ms (app_loop a) = t"
      "icmp_usable (app_icmp a) (app_dest a)" "unat (deadline_ms (timers (app_loop a) ! 2)) \<le> 9223374184338422807"
      "int (echoes w) = consecutive_fails a + 1" "0 \<le> consecutive_fails a" "consecutive_fails a < fail_threshold cfg" "spawns w = 0"
      "lp_exit_code (app_loop a) = LS_EXIT_SUCCESS"
    using inv run by (simp_all add: outage_inv_def)
  have sil: "silent (world_os w)" using I(1,2) by (simp add: outage_host_def)
  obtain b v where b: "evolves quiet w v" "check_threshold b v = (a', w')"
    "core b = core ((probe_reset a)\<lparr>consecutive_fails := consecutive_fails a + 1, app_stats := ls_stats_add_fail (app_stats a)\<rparr>)"
    by (rule on_reply_silent [OF I(5) sil run(1) rt])
  let ?c = "(probe_reset a)\<lparr>consecutive_fails := consecutive_fails a + 1, app_stats := ls_stats_add_fail (app_stats a)\<rparr>"
  have idx: "reply_timer a = 1" using I(3) by (simp add: app_wired_def)
  note K = core_agree [OF b(3)] and Q = quiet_counts [OF b(1)]
  have "app_wired cfg b" using app_wired_cong [OF b(3)] I(3) by simp
  moreover have "icmp_usable (app_icmp b) (app_dest b)"
    using usable_agree [OF b(3)] I(5) K(16) by (simp add: probe_reset_def Let_def)
  ultimately have "outage_inv sys cfg t a' w' \<and> (stopping (app_loop a') \<or> potential a' = potential b)"
    using outage_failure [OF I(1) _ _ _ _ _ _ _ _ _ _ _ _ b(2), of t] I K Q idx run(1) wired_length [OF I(3)]
    by (simp add: probe_reset_def Let_def)
  moreover have "potential a < potential b"
    unfolding outage_cong(2) [OF b(3)] using I(8) idx by (simp add: potential_def probe_reset_def Let_def)
  ultimately show ?thesis by auto
qed

lemma ping_step_bound:
  assumes "app_wired cfg a" "unat (interval_ms cfg) \<le> 2147483647000" "0 < unat (interval_ms cfg)" "timer_due (app_loop a) 2"
  shows "unat (deadline_ms (ls_timer_step (interval_ms cfg) (now_ms (app_loop a)) (timers (app_loop a) ! 2))) \<le> 9223374184338422807"
proof -
  note D = wired_due [OF assms(4,1)]
  have "unat (deadline_ms (timers (app_loop a) ! 2)) \<le> unat (now_ms (app_loop a))" using D(1) by (simp add: word_le_nat_alt)
  then show ?thesis
    using unat_ls_timer_step [OF _ D(1), of "interval_ms cfg"] D(3) assms(2,3) by (auto simp: unat_gt_0)
qed

text \<open>A probe from a state \<open>a1\<close> in which the ping timer has been stepped: refused by the kernel, or
  sent.\<close>

lemma ping_refused_outage:
  assumes inv: "outage_inv sys cfg t a1 w" and run: "\<not> stopping (app_loop a1)" and idle: "\<not> reply_armed a1"
    and core: "core b = core (a1\<lparr>app_icmp := ic, consecutive_fails := consecutive_fails a1 + 1,
      app_stats := ls_stats_add_fail (app_stats a1)\<rparr>)"
    and ic: "icmp_sockfd ic = icmp_sockfd (app_icmp a1)" "icmp_opened ic = icmp_opened (app_icmp a1)"
      "icmp_family ic = icmp_family (app_icmp a1)"
    and ev: "evolves quiet (emit (Echo_send pkt d dl (Inl e)) (w\<lparr>tick := Suc (tick w)\<rparr>)) v" and ct: "check_threshold b v = (a', w')"
  shows "outage_inv sys cfg t a' w' \<and> (stopping (app_loop a') \<or> potential a1 < potential a')"
proof -
  note K = core_agree [OF core]
  have "spawns v = 0" "echoes v = Suc (echoes w)" "world_os v = sys"
    using quiet_counts [OF ev] inv run by (simp_all add: spawns_def echoes_def outage_inv_def)
  moreover have "app_wired cfg b" using app_wired_cong [OF core] inv by (simp add: outage_inv_def)
  moreover have "icmp_usable (app_icmp b) (app_dest b)"
    using inv ic K(13-16) icmp_usable_cong [of "app_icmp b" "app_icmp a1"] by (simp add: outage_inv_def)
  ultimately have "outage_inv sys cfg t a' w' \<and> (stopping (app_loop a') \<or> potential a' = potential b)"
    using outage_failure [OF _ _ _ _ _ _ _ _ _ _ _ _ _ ct, of sys cfg t] inv K run idle by (simp add: outage_inv_def)
  moreover have "potential a1 < potential b"
    unfolding outage_cong(2) [OF core] using inv run by (simp add: potential_def outage_inv_def)
  ultimately show ?thesis by auto
qed

lemma ping_sent_outage:
  assumes inv: "outage_inv sys cfg t a1 w" and run: "\<not> stopping (app_loop a1)" and idle: "\<not> reply_armed a1"
    and ic: "icmp_sockfd ic = icmp_sockfd (app_icmp a1)" "icmp_opened ic = icmp_opened (app_icmp a1)"
      "icmp_family ic = icmp_family (app_icmp a1)"
    and w': "w' = (emit (Echo_send pkt d dl (Inr n)) (w\<lparr>tick := Suc (tick w)\<rparr>))\<lparr>tick := Suc (Suc (tick w))\<rparr>"
    and a': "a' = upd_timer (ls_timer_arm_after (now_ms (app_loop a1)) (timeout_ms cfg)) (reply_timer a1)
      (a1\<lparr>app_icmp := ic, probe_sent_ns := s, probe_sequence := q\<rparr>)"
  shows "outage_inv sys cfg t a' w' \<and> potential a' = potential a1"
proof -
  have I: "app_wired cfg a1" "now_ms (app_loop a1) = t" using inv by (simp_all add: outage_inv_def)
  have idx: "reply_timer a1 = 1" "length (timers (app_loop a1)) = 3"
    using I(1) wired_length [OF I(1)] by (simp_all add: app_wired_def)
  have "spawns w' = spawns w" "echoes w' = Suc (echoes w)" "world_os w' = world_os w"
    unfolding w' by (simp_all add: spawns_def echoes_def)
  moreover have "ls_timer_armed (ls_timer_arm_after t (timeout_ms cfg) x)" for x :: "app_timer_cb ls_timer_t"
    using I ls_timer_arm_after_armed [of t "timeout_ms cfg" x] by (simp add: app_wired_def)
  ultimately have "outage_inv sys cfg t a' w'"
    unfolding a' using inv I(2) idx run idle icmp_usable_cong [OF ic] by (simp add: outage_inv_def)
  moreover have "potential a' = potential a1"
    unfolding a' using idx by (simp add: potential_def)
  ultimately show ?thesis by blast
qed

lemma on_ping_outage:
  assumes inv: "outage_inv sys cfg t a w" and run: "\<not> stopping (app_loop a)" and due: "timer_due (app_loop a) 2"
    and pt: "on_ping_timer a w = (a', w')"
  shows "outage_inv sys cfg t a' w' \<and> (stopping (app_loop a') \<or> potential a < potential a')"
proof -
  have I: "outage_host sys cfg" "world_os w = sys" "app_wired cfg a" "icmp_usable (app_icmp a) (app_dest a)"
    using inv by (simp_all add: outage_inv_def)
  have idx: "ping_timer a = 2" "reply_timer a = 1" "app_config a = cfg" "ping_timer a \<noteq> reply_timer a"
    "length (timers (app_loop a)) = 3"
    using I(3) wired_length [OF I(3)] by (simp_all add: app_wired_def)
  have iv: "unat (interval_ms cfg) \<le> 2147483647000" "0 < unat (interval_ms cfg)" and sil: "silent sys"
    using I(1) by (auto simp: outage_host_def config_ok_def)
  define a1 where "a1 = upd_timer (ls_timer_step (interval_ms (app_config a)) (now_ms (app_loop a))) (ping_timer a) a"
  have inv1: "outage_inv sys cfg t a1 w"
    using inv run ping_step_bound [OF I(3) iv due] idx by (simp add: a1_def outage_inv_def)
  have pot1: "potential a < potential a1"
    using ls_timer_step_later [OF _ wired_due(1) [OF due I(3)], of "interval_ms cfg"] wired_due(3) [OF due I(3)] iv idx
    by (simp add: potential_def a1_def word_less_nat_alt)
  have sel: "reply_armed a1 = reply_armed a" "stopping (app_loop a1) = stopping (app_loop a)" "now_ms (app_loop a1) = now_ms (app_loop a)"
    "app_icmp a1 = app_icmp a" "consecutive_fails a1 = consecutive_fails a" "app_stats a1 = app_stats a" "reply_timer a1 = reply_timer a"
    using idx by (simp_all add: a1_def)
  note step = inv1 run [folded sel(2)]
  from pt idx(4) show ?thesis
  proof (cases rule: on_ping_timer_cases)
    case busy
    with inv1 pot1 show ?thesis by (simp add: a1_def)
  next
    case (fatal ic)
    with I(2,4) sil show ?thesis by (simp add: silent_def)
  next
    case (refused ic pkt e v b)
    have "core b = core (a1\<lparr>app_icmp := ic, consecutive_fails := consecutive_fails a1 + 1,
        app_stats := ls_stats_add_fail (app_stats a1)\<rparr>)"
      using refused(9) [folded a1_def] sel(5,6) by simp
    from ping_refused_outage [OF step _ this _ _ _ refused(7,8)] refused(1,3-5) pot1 show ?thesis
      unfolding sel(1,4) by (metis less_trans)
  next
    case (sent ic pkt s)
    have idle: "\<not> reply_armed a1" using sent(1) sel(1) by blast
    from ping_sent_outage [OF step idle _ _ _ sent(7), where ic = ic and s = s and q = "icmp_sequence ic" and a' = a'] sent(1-4) sent(8) [folded a1_def] pot1
    show ?thesis unfolding sel(3,4,7) idx(3) by simp
  qed
qed

interpretation app_outage: progress_client app_client "outage_inv sys cfg t" potential for sys cfg t
proof unfold_locales
  fix a w i a' w'
  assume inv: "outage_inv sys cfg t a w" and run: "\<not> stopping (cl_loop app_client a)"
    and i: "i < length (timers (cl_loop app_client a))" and due: "timer_due (cl_loop app_client a) i"
    and cb: "cl_timer_cb app_client (timer_cb (timers (cl_loop app_client a) ! i)) a w = (a', w')"
  have wired: "app_wired cfg a" using inv by (simp add: outage_inv_def)
  have "outage_inv sys cfg t a' w' \<and> (stopping (app_loop a') \<or> potential a < potential a')"
    using wired i [simplified] due [simplified]
  proof (cases rule: wired_callback)
    case watchdog
    then show ?thesis using on_watchdog_outage [OF inv, of a' w'] run due cb by simp
  next
    case reply
    then show ?thesis using on_reply_outage [OF inv, of a' w'] run cb by simp
  next
    case ping
    then show ?thesis using on_ping_outage [OF inv, of a' w'] run due cb by simp
  qed
  then show "outage_inv sys cfg t a' w'" "stopping (cl_loop app_client a') \<or> potential a < potential a'" by simp_all
qed

section \<open>One pass\<close>

lemma ready_count_none: "ready_count (set_revents [] ps) = 0"
  by (auto simp: ready_count_def set_revents_def filter_empty_conv)

lemma outage_loop:
  assumes "outage_inv sys cfg t a w" "world_os w' = world_os w" "spawns w' = spawns w" "echoes w' = echoes w"
    "timers l = timers (app_loop a)" "stopping l = stopping (app_loop a)" "lp_exit_code l = lp_exit_code (app_loop a)"
    "unat (now_ms l) < 9223372036854775808"
  shows "outage_inv sys cfg (now_ms l) (set_app_loop l a) w'"
  using assms by (auto simp: outage_inv_def set_app_loop_def app_wired_def split: if_splits)

text \<open>When no timer is due the loop sleeps: its ping timer is always armed.\<close>

lemma outage_sleeps:
  assumes "outage_inv sys cfg t a w" "\<forall>i < 3. \<not> timer_due (app_loop a) i"
  shows "0 < poll_timeout_ms (app_loop a)"
proof -
  have len: "length (timers (app_loop a)) = 3" and "ls_timer_armed (timers (app_loop a) ! 2)"
    using assms(1) wired_length by (auto simp: outage_inv_def ls_timer_armed_def)
  moreover have "timers (app_loop a) ! 2 \<in> set (timers (app_loop a))" using len by simp
  ultimately have "poll_timeout_ms (app_loop a) \<noteq> -1" using poll_timeout_spec [of "app_loop a"] by blast
  moreover have "\<not> (\<exists>x \<in> set (timers (app_loop a)). ls_timer_armed x \<and> deadline_ms x \<le> now_ms (app_loop a))"
    using assms(2) len by (auto simp: in_set_conv_nth timer_due_def)
  then have "poll_timeout_ms (app_loop a) \<noteq> 0" using poll_timeout_spec [of "app_loop a"] by blast
  moreover have "-1 \<le> poll_timeout_ms (app_loop a)" using poll_timeout_spec [of "app_loop a"] by blast
  ultimately show ?thesis by linarith
qed

lemma outage_fire_ticks:
  assumes "outage_inv sys cfg t a w" "fire_timers app_client (a, w) = (a', w')"
  shows "tick w \<le> tick w'"
proof -
  have "frame_inv a w a w"
    using assms(1) by (simp add: frame_inv_def same_channels_def outage_inv_def app_wired_def)
  then have "frame_inv a w a' w'"
    using app_frame.inv_fire assms(2) unfolding fire_timers_def by blast
  then show ?thesis by (simp add: frame_inv_def evolves_def)
qed

text \<open>A pass during an outage: read the clock, fire the timers, poll in vain.\<close>

lemma outage_body:
  assumes inv: "outage_inv sys cfg t a w" and run: "\<not> stopping (app_loop a)" and body: "loop_body app_client a w = (brk, a', w')"
  defines "a1 \<equiv> set_app_loop ((app_loop a)\<lparr>now_ms := coarse_ms sys (tick w)\<rparr>) a" and "w1 \<equiv> w\<lparr>tick := Suc (tick w)\<rparr>"
  obtains a2 w2 where "outage_inv sys cfg (coarse_ms sys (tick w)) a1 w1" "fire_timers app_client (a1, w1) = (a2, w2)"
    "outage_inv sys cfg (coarse_ms sys (tick w)) a2 w2" "tick w < tick w2"
    "if stopping (app_loop a2) then brk \<and> a' = a2 \<and> w' = w2
     else \<not> brk \<and> a' = set_app_loop ((app_loop a2)\<lparr>fds := set_revents [] (fds (app_loop a2))\<rparr>) a2 \<and> w' = w2\<lparr>tick := Suc (tick w2)\<rparr>"
proof -
  have host: "world_os w = sys" "clock_steady sys" "silent sys" using inv by (simp_all add: outage_inv_def outage_host_def)
  let ?now = "coarse_ms sys (tick w)" and ?l1 = "(app_loop a)\<lparr>now_ms := coarse_ms sys (tick w)\<rparr>"
  have now: "unat ?now < 9223372036854775808" using host(2) by (simp add: clock_steady_def)
  have ref: "refresh_now (app_loop a) w = (True, ?l1, w1)"
    using clock_steady_reading(1) [OF host(2)] host(1) by (simp add: refresh_now_def ls_now_ms_coarse w1_def)
  have inv1: "outage_inv sys cfg ?now a1 w1"
    using outage_loop [OF inv, of w1 ?l1] now by (simp add: a1_def w1_def spawns_def echoes_def)
  obtain a2 w2 where f: "fire_timers app_client (a1, w1) = (a2, w2)" by (metis surj_pair)
  have inv2: "outage_inv sys cfg ?now a2 w2"
    using app_outage.inv_fire [OF inv1] f unfolding fire_timers_def by blast
  then have os: "world_os w2 = sys" by (simp add: outage_inv_def)
  show ?thesis
  proof (rule that [OF inv1 f inv2])
    show "tick w < tick w2" using outage_fire_ticks [OF inv1 f] by (simp add: w1_def)
    show "if stopping (app_loop a2) then brk \<and> a' = a2 \<and> w' = w2
     else \<not> brk \<and> a' = set_app_loop ((app_loop a2)\<lparr>fds := set_revents [] (fds (app_loop a2))\<rparr>) a2 \<and> w' = w2\<lparr>tick := Suc (tick w2)\<rparr>"
      using body os host(3) by (auto simp: loop_body_def ref f [unfolded a1_def] ask_def silent_def ready_count_none Let_def)
  qed
qed

text \<open>It stops after the threshold action, or raises the potential, or polls with a positive timeout.\<close>

lemma outage_pass:
  assumes inv: "outage_inv sys cfg t a w" and run: "\<not> stopping (app_loop a)" and body: "loop_body app_client a w = (brk, a', w')"
  shows "\<exists>t'. outage_inv sys cfg t' a' w'" "stopping (app_loop a') \<or> (\<not> brk \<and> tick w < tick w' \<and>
    now_ms (app_loop a') = coarse_ms sys (tick w) \<and> (potential a < potential a' \<or> potential a' = potential a \<and> 0 < poll_timeout_ms (app_loop a')))"
proof -
  let ?now = "coarse_ms sys (tick w)"
  obtain a2 w2 where b: "outage_inv sys cfg ?now (set_app_loop ((app_loop a)\<lparr>now_ms := ?now\<rparr>) a) (w\<lparr>tick := Suc (tick w)\<rparr>)"
    "fire_timers app_client (set_app_loop ((app_loop a)\<lparr>now_ms := ?now\<rparr>) a, w\<lparr>tick := Suc (tick w)\<rparr>) = (a2, w2)"
    "outage_inv sys cfg ?now a2 w2" "tick w < tick w2"
    "if stopping (app_loop a2) then brk \<and> a' = a2 \<and> w' = w2
     else \<not> brk \<and> a' = set_app_loop ((app_loop a2)\<lparr>fds := set_revents [] (fds (app_loop a2))\<rparr>) a2 \<and> w' = w2\<lparr>tick := Suc (tick w2)\<rparr>"
    by (rule outage_body [OF inv run body])
  let ?l3 = "(app_loop a2)\<lparr>fds := set_revents [] (fds (app_loop a2))\<rparr>"
  have n2: "now_ms (app_loop a2) = ?now" "unat ?now < 9223372036854775808"
    using b(3) by (auto simp: outage_inv_def app_wired_def)
  have "potential (set_app_loop ((app_loop a)\<lparr>now_ms := ?now\<rparr>) a) = potential a" by (simp add: potential_def set_app_loop_def)
  moreover have "length (timers (app_loop (set_app_loop ((app_loop a)\<lparr>now_ms := ?now\<rparr>) a))) = 3"
    using b(1) wired_length unfolding outage_inv_def by blast
  ultimately have p: "stopping (app_loop a2) \<or> potential a < potential a2 \<or> potential a2 = potential a \<and> 0 < poll_timeout_ms (app_loop a2)"
    using app_outage.fire_progress [OF b(1) b(2) [unfolded fire_timers_def] sorted_upt] outage_sleeps [OF b(3)]
    by (auto simp: LS_LOOP_MAX_TIMERS_def)
  have inv3: "outage_inv sys cfg ?now (set_app_loop ?l3 a2) (w2\<lparr>tick := Suc (tick w2)\<rparr>)"
    using outage_loop [OF b(3), of "w2\<lparr>tick := Suc (tick w2)\<rparr>" ?l3] n2 by (simp add: spawns_def echoes_def)
  have eq: "potential (set_app_loop ?l3 a2) = potential a2" "poll_timeout_ms ?l3 = poll_timeout_ms (app_loop a2)"
    by (simp_all add: set_app_loop_def potential_def poll_timeout_ms_def Let_def)
  show "\<exists>t'. outage_inv sys cfg t' a' w'" using b(3,5) inv3 by (auto split: if_splits)
  show "stopping (app_loop a') \<or> (\<not> brk \<and> tick w < tick w' \<and>
    now_ms (app_loop a') = ?now \<and> (potential a < potential a' \<or> potential a' = potential a \<and> 0 < poll_timeout_ms (app_loop a')))"
    using b(4,5) p n2(1) eq by (auto simp: set_app_loop_def split: if_splits)
qed

section \<open>The whole outage\<close>

text \<open>The clock moves on while the daemon sleeps: after a \<^verbatim>\<open>poll\<close> with a positive timeout that
  reported nothing, the next reading is later than the one the timeout was computed from.\<close>

definition clock_advances :: "os \<Rightarrow> ls_config_t \<Rightarrow> bool" where
  "clock_advances sys cfg \<longleftrightarrow>
     (\<forall>a w a' w'. running (boot sys) cfg a w \<longrightarrow> \<not> stopping (app_loop a) \<longrightarrow> loop_body app_client a w = (False, a', w') \<longrightarrow>
        0 < poll_timeout_ms (app_loop a') \<longrightarrow> now_ms (app_loop a') < coarse_ms sys (tick w'))"

lemma entry_outage:
  assumes "loop_entry (boot sys) cfg a w" "outage_host sys cfg"
  shows "outage_inv sys cfg 0 a w"
  using assms(1)
proof (rule loop_entry_facts)
  fix fd now u
  assume cfg: "config_ok (world_os (boot sys)) cfg" "app_config a = cfg" and z: "consecutive_fails a = 0"
    and l: "app_loop a = started_loop (signal_mask (boot sys)) a fd now" and t: "reply_timer a = 1"
    and us: "icmp_usable (app_icmp a) (app_dest a)" and n: "\<exists>n. now = coarse_ms (world_os (boot sys)) n"
    and ev: "evolves setup_effect (boot sys) u" "evolves quiet (emit (Notify_send ''READY=1'' True) u) w"
  have clk: "clock_steady sys" using assms(2) by (simp add: outage_host_def)
  have wired: "app_wired cfg a"
    using entry_mon [OF assms(1) clock_steady_reading(2) [OF clk]] by (simp add: mon_inv_def)
  have "unat now < 9223372036854775808" using n clk by (auto simp: clock_steady_def)
  then have d: "unat (deadline_ms (timers (app_loop a) ! 2)) \<le> 9223374184338422807"
    using cfg by (simp add: l started_loop_def Let_def ls_timer_arm_after_def unat_ls_add_sat config_ok_def)
  have c: "spawns w = 0" "echoes w = 0" "world_os w = sys"
    using setup_counts [OF ev] by (simp_all add: spawns_def echoes_def)
  have "\<not> reply_armed a" "\<not> stopping (app_loop a)" "lp_exit_code (app_loop a) = LS_EXIT_SUCCESS" "now_ms (app_loop a) = 0"
    by (simp_all add: t) (simp_all add: l)
  then show ?thesis
    using assms(2) wired us d c z cfg(1) by (simp add: outage_inv_def config_ok_def)
qed

definition outage_variant :: "os \<Rightarrow> ls_config_t \<Rightarrow> app_t \<Rightarrow> world \<Rightarrow> nat" where
  "outage_variant sys cfg a w =
     3 * 18446744073709551616 + nat (fail_threshold cfg) - (potential a + unat (coarse_ms sys (tick w)))"

lemma outage_variant_decreases:
  assumes "outage_inv sys cfg t' a' w'" and run: "\<not> stopping (app_loop a')"
    and "tick w < tick w'" "potential a < potential a' \<or> potential a' = potential a \<and> coarse_ms sys (tick w) < coarse_ms sys (tick w')"
  shows "outage_variant sys cfg a' w' < outage_variant sys cfg a w"
proof -
  have "clock_steady sys" using assms(1) by (simp add: outage_inv_def outage_host_def)
  then have "unat (coarse_ms sys (tick w)) \<le> unat (coarse_ms sys (tick w'))"
    using clock_steady_mono assms(3) by (simp add: word_le_nat_alt [symmetric])
  moreover have "nat (consecutive_fails a') < nat (fail_threshold cfg)"
    using assms(1) run by (simp add: outage_inv_def)
  then have "potential a' + unat (coarse_ms sys (tick w')) < 3 * 18446744073709551616 + nat (fail_threshold cfg)"
    unfolding potential_def using unat_lt_UINT64 [of "deadline_ms (timers (app_loop a') ! 0)"]
      unat_lt_UINT64 [of "deadline_ms (timers (app_loop a') ! 2)"] unat_lt_UINT64 [of "coarse_ms sys (tick w')"]
    by linarith
  ultimately show ?thesis
    using assms(4) by (auto simp: outage_variant_def word_less_nat_alt)
qed

lemma outage_ends:
  assumes entry: "loop_entry (boot sys) cfg a w" and host: "outage_host sys cfg" and adv: "clock_advances sys cfg"
  obtains a' w' t where "ls_loop_run app_client a w = Some (LS_EXIT_SUCCESS, a', w')" "running (boot sys) cfg a' w'"
    "outage_inv sys cfg t a' w'" "stopping (app_loop a')"
proof -
  let ?Q = "\<lambda>a w. running (boot sys) cfg a w \<and> (\<exists>t. outage_inv sys cfg t a w)"
  have "\<exists>a' w'. ls_loop_run app_client a w = Some (lp_exit_code (cl_loop app_client a'), a', w') \<and> ?Q a' w' \<and>
      stopping (cl_loop app_client a')"
  proof (rule app_lens.run_terminates [of ?Q "outage_variant sys cfg"])
    fix a w brk a' w'
    assume Q: "?Q a w" and run: "\<not> stopping (cl_loop app_client a)" and b: "loop_body app_client a w = (brk, a', w')"
    obtain t where t: "outage_inv sys cfg t a w" using Q by blast
    note P = outage_pass [OF t _ b]
    obtain t' where t': "outage_inv sys cfg t' a' w'" using P(1) run by auto
    have "outage_variant sys cfg a' w' < outage_variant sys cfg a w" if "\<not> stopping (app_loop a')"
      by (rule outage_variant_decreases [OF t' that]) (use P(2) that run Q b adv [unfolded clock_advances_def, rule_format, of a w a' w'] in auto)
    then show "?Q a' w' \<and> (stopping (cl_loop app_client a') \<or> outage_variant sys cfg a' w' < outage_variant sys cfg a w)"
      using running_pass [of _ cfg a w brk a' w'] Q run b t' by auto
  qed (use running_start [OF entry] entry_outage [OF entry host] in blast)
  then obtain a' w' t where "ls_loop_run app_client a w = Some (lp_exit_code (app_loop a'), a', w')" "running (boot sys) cfg a' w'"
    "outage_inv sys cfg t a' w'" "stopping (app_loop a')" by auto
  then show ?thesis by (intro that) (auto simp: outage_inv_def)
qed

end
