(* ===== verification/LS_Detect.thy ===== *)
theory LS_Detect
  imports LS_Outage
begin

text \<open>
  How long an outage takes to be acted on. Every failed probe of an outage is accounted for on a grid: the
  ping timer keeps the phase of its first deadline, one interval per probe, and a probe that was sent is
  given up one timeout later. If the host wakes the daemon at most \<open>slack\<close> milliseconds late, the
  threshold action falls into a window of the width of one timeout and twice the slack.
\<close>

section \<open>The grid of an outage\<close>

text \<open>\<open>d0\<close> is the first deadline of the ping timer and \<open>t\<close> the time of the pass: no timer is late by more
  than the slack, and the deadlines are where the number of failures puts them.\<close>

definition paced :: "ls_config_t \<Rightarrow> nat \<Rightarrow> nat \<Rightarrow> nat \<Rightarrow> app_t \<Rightarrow> bool" where
  "paced cfg d0 slack t a \<longleftrightarrow>
     (let k = nat (consecutive_fails a); start = d0 + k * unat (interval_ms cfg);
          ping = unat (deadline_ms (timers (app_loop a) ! 2)); reply = unat (deadline_ms (timers (app_loop a) ! 1))
      in t \<le> ping + slack \<and>
         (if reply_armed a
          then ping = start + unat (interval_ms cfg) \<and> start + unat (timeout_ms cfg) \<le> reply \<and>
            reply \<le> start + unat (timeout_ms cfg) + slack \<and> t \<le> reply + slack
          else ping = start))"

text \<open>The window in which failure number \<open>n\<close> is found.\<close>

definition in_window :: "ls_config_t \<Rightarrow> nat \<Rightarrow> nat \<Rightarrow> nat \<Rightarrow> nat \<Rightarrow> bool" where
  "in_window cfg d0 slack n t \<longleftrightarrow>
     0 < n \<and> d0 + (n - 1) * unat (interval_ms cfg) \<le> t \<and>
     t \<le> d0 + (n - 1) * unat (interval_ms cfg) + unat (timeout_ms cfg) + 2 * slack"

definition detect_inv :: "os \<Rightarrow> ls_config_t \<Rightarrow> nat \<Rightarrow> nat \<Rightarrow> u64 \<Rightarrow> app_t \<Rightarrow> world \<Rightarrow> bool" where
  "detect_inv sys cfg d0 slack t a w \<longleftrightarrow>
     outage_inv sys cfg t a w \<and> unat (timeout_ms cfg) + 2 * slack < unat (interval_ms cfg) \<and> paced cfg d0 slack (unat t) a \<and>
     (stopping (app_loop a) \<longrightarrow> in_window cfg d0 slack (nat (consecutive_fails a)) (unat t))"

lemma paced_cong:
  assumes "core a = core b"
  shows "paced cfg d0 slack t a = paced cfg d0 slack t b"
  by (simp add: paced_def core_agree [OF assms])

lemma check_threshold_paced:
  assumes "check_threshold b v = (a', w')"
  shows "paced cfg d0 slack t a' = paced cfg d0 slack t b" "consecutive_fails a' = consecutive_fails b"
    "timers (app_loop a') = timers (app_loop b)" "now_ms (app_loop a') = now_ms (app_loop b)"
  using assms by (cases rule: check_threshold_cases; auto simp: paced_def)+

lemma on_reply_paced:
  assumes inv: "detect_inv sys cfg d0 slack t a w" and run: "\<not> stopping (app_loop a)" and due: "timer_due (app_loop a) 1"
    and rt: "on_reply_timer a w = (a', w')"
  shows "paced cfg d0 slack (unat t) a' \<and> in_window cfg d0 slack (nat (consecutive_fails a')) (unat t) \<and>
    \<not> timer_due (app_loop a') 1 \<and> timers (app_loop a') ! 2 = timers (app_loop a) ! 2 \<and> now_ms (app_loop a') = t"
proof -
  have I: "icmp_usable (app_icmp a) (app_dest a)" "silent (world_os w)" "app_wired cfg a" "now_ms (app_loop a) = t" "0 \<le> consecutive_fails a"
    using inv run by (auto simp: detect_inv_def outage_inv_def outage_host_def)
  have idx: "reply_timer a = 1" "length (timers (app_loop a)) = 3" using I(3) wired_length by (auto simp: app_wired_def)
  obtain b v where b: "check_threshold b v = (a', w')"
    "core b = core ((probe_reset a)\<lparr>consecutive_fails := consecutive_fails a + 1, app_stats := ls_stats_add_fail (app_stats a)\<rparr>)"
    by (rule on_reply_silent [OF I(1,2) run rt])
  note C = check_threshold_paced [OF b(1)] and K = core_agree [OF b(2)]
  have armed: "reply_armed a" "unat (deadline_ms (timers (app_loop a) ! 1)) \<le> unat t"
    using due idx I(4) by (simp_all add: timer_due_def word_le_nat_alt)
  have k: "nat (consecutive_fails a + 1) = Suc (nat (consecutive_fails a))" using I(5) by simp
  have p: "paced cfg d0 slack (unat t) a" using inv by (simp add: detect_inv_def)
  have "paced cfg d0 slack (unat t) b"
    using p armed idx k unfolding paced_cong [OF b(2)] by (simp add: paced_def probe_reset_def Let_def)
  moreover have "in_window cfg d0 slack (nat (consecutive_fails b)) (unat t)"
    using p armed idx k K by (simp add: paced_def in_window_def probe_reset_def Let_def)
  ultimately show ?thesis
    using C K idx I(4) by (simp add: probe_reset_def Let_def timer_due_def)
qed


lemma on_watchdog_paced:
  assumes inv: "detect_inv sys cfg d0 slack t a w" and run: "\<not> stopping (app_loop a)" and wd: "on_watchdog_timer a w = (a', w')"
  shows "paced cfg d0 slack (unat t) a' \<and> \<not> stopping (app_loop a') \<and> now_ms (app_loop a') = t \<and>
    timers (app_loop a') ! 1 = timers (app_loop a) ! 1 \<and> timers (app_loop a') ! 2 = timers (app_loop a) ! 2"
proof -
  have "watchdog_timer a = 0" "reply_timer a = 1" "now_ms (app_loop a) = t"
    using inv by (simp_all add: detect_inv_def outage_inv_def app_wired_def)
  moreover obtain f b where "a' = (upd_timer f (watchdog_timer a) a)\<lparr>watchdog_last_failed := b\<rparr>"
    using on_watchdog_timer_frame(1) [OF wd] by blast
  ultimately show ?thesis using inv run by (simp add: detect_inv_def paced_def)
qed

lemma on_ping_paced:
  assumes inv: "detect_inv sys cfg d0 slack t a w" and run: "\<not> stopping (app_loop a)" and due: "timer_due (app_loop a) 2"
    and pt: "on_ping_timer a w = (a', w')"
  shows "paced cfg d0 slack (unat t) a' \<and> (stopping (app_loop a') \<longrightarrow> in_window cfg d0 slack (nat (consecutive_fails a')) (unat t)) \<and>
    \<not> timer_due (app_loop a') 1 \<and> \<not> timer_due (app_loop a') 2"
proof -
  have I: "outage_host sys cfg" "world_os w = sys" "app_wired cfg a" "icmp_usable (app_icmp a) (app_dest a)" "now_ms (app_loop a) = t"
    "0 \<le> consecutive_fails a" and fit: "unat (timeout_ms cfg) + 2 * slack < unat (interval_ms cfg)" and p: "paced cfg d0 slack (unat t) a"
    using inv run by (simp_all add: detect_inv_def outage_inv_def)
  have idx: "ping_timer a = 2" "reply_timer a = 1" "app_config a = cfg" "ping_timer a \<noteq> reply_timer a"
    "length (timers (app_loop a)) = 3"
    using I(3) wired_length [OF I(3)] by (simp_all add: app_wired_def)
  have cfg: "unat (interval_ms cfg) \<le> 2147483647000" "0 < unat (timeout_ms cfg)" "unat (timeout_ms cfg) \<le> 2147483647" "silent sys"
    using I(1) by (auto simp: outage_host_def config_ok_def)
  let ?d = "unat (deadline_ms (timers (app_loop a) ! 2))" and ?n = "deadline_ms (ls_timer_step (interval_ms cfg) t (timers (app_loop a) ! 2))"
  note D = wired_due [OF due I(3)]
  have d: "?d \<le> unat t" "unat t < 9223372036854775808" using D(1,3) I(5) by (simp_all add: word_le_nat_alt)
  have idle: "\<not> reply_armed a" and win: "unat t \<le> ?d + slack" "?d = d0 + nat (consecutive_fails a) * unat (interval_ms cfg)"
    using p d(1) fit by (auto simp: paced_def Let_def idx(2) split: if_splits)
  have n: "unat ?n = ?d + unat (interval_ms cfg)" "unat t < unat ?n"
    using unat_ls_timer_step [of t "interval_ms cfg" "timers (app_loop a) ! 2"] d D(1) I(5) win(1) fit cfg(1)
    by (auto simp: unat_gt_0 [symmetric])
  show ?thesis
    using pt idx(4)
  proof (cases rule: on_ping_timer_cases)
    case busy
    with idle show ?thesis by simp
  next
    case (fatal ic)
    with I(2,4) cfg(4) show ?thesis by (simp add: silent_def)
  next
    case (refused ic pkt e v b)
    have core: "core b = core ((upd_timer (ls_timer_step (interval_ms (app_config a)) (now_ms (app_loop a))) (ping_timer a) a)
      \<lparr>app_icmp := ic, consecutive_fails := consecutive_fails a + 1, app_stats := ls_stats_add_fail (app_stats a)\<rparr>)"
      using refused(9) by simp
    note C = check_threshold_paced [OF refused(8)] and K = core_agree [OF core]
    have k: "nat (consecutive_fails a + 1) = Suc (nat (consecutive_fails a))" using I(6) by simp
    have "paced cfg d0 slack (unat t) b"
      using idle n win idx I(5) k unfolding paced_cong [OF core] by (simp add: paced_def Let_def)
    moreover have "in_window cfg d0 slack (nat (consecutive_fails b)) (unat t)"
      using d(1) win k K by (simp add: in_window_def)
    ultimately show ?thesis
      using C K idx I(5) idle n(2) by (simp add: timer_due_def word_le_nat_alt)
  next
    case (sent ic pkt s)
    have r: "unat (ls_add_sat t (timeout_ms cfg)) = unat t + unat (timeout_ms cfg)"
      using d(2) cfg(3) by (simp add: unat_ls_add_sat)
    then have "ls_timer_armed (ls_timer_arm_after t (timeout_ms cfg) x)" for x :: "app_timer_cb ls_timer_t"
      using ls_timer_arm_after_armed [of t "timeout_ms cfg" x] d(2) cfg(3) by simp
    then show ?thesis
      using sent(8) idx I(5) n win d(1) r cfg(2) run
      by (simp add: paced_def Let_def timer_due_def word_le_nat_alt ls_timer_arm_after_def)
  qed
qed

lemma detect_timer:
  assumes inv: "detect_inv sys cfg d0 slack t a w" and run: "\<not> stopping (app_loop a)"
    and i: "i < length (timers (app_loop a))" and due: "timer_due (app_loop a) i"
    and cb: "app_timer_callback (timer_cb (timers (app_loop a) ! i)) a w = (a', w')"
  shows "detect_inv sys cfg d0 slack t a' w'"
    "j \<in> {1, 2} \<Longrightarrow> j = i \<or> \<not> timer_due (app_loop a) j \<Longrightarrow> stopping (app_loop a') \<or> \<not> timer_due (app_loop a') j"
proof -
  have out: "outage_inv sys cfg t a w" and fit: "unat (timeout_ms cfg) + 2 * slack < unat (interval_ms cfg)"
    using inv by (simp_all add: detect_inv_def)
  then have wired: "app_wired cfg a" and now: "now_ms (app_loop a) = t" by (simp_all add: outage_inv_def)
  have out': "outage_inv sys cfg t a' w'" using app_outage.inv_timer [OF out, of i a' w'] run i due cb by simp
  have "paced cfg d0 slack (unat t) a' \<and> (stopping (app_loop a') \<longrightarrow> in_window cfg d0 slack (nat (consecutive_fails a')) (unat t)) \<and>
    (\<forall>j \<in> {1, 2}. j = i \<or> \<not> timer_due (app_loop a) j \<longrightarrow> \<not> timer_due (app_loop a') j)"
    using wired i due
  proof (cases rule: wired_callback)
    case watchdog
    with on_watchdog_paced [OF inv run] cb now show ?thesis by (simp add: timer_due_def)
  next
    case reply
    with on_reply_paced [OF inv run] due cb now show ?thesis by (auto simp: timer_due_def)
  next
    case ping
    with on_ping_paced [OF inv run] due cb show ?thesis by simp
  qed
  with out' fit show "detect_inv sys cfg d0 slack t a' w'"
    "j \<in> {1, 2} \<Longrightarrow> j = i \<or> \<not> timer_due (app_loop a) j \<Longrightarrow> stopping (app_loop a') \<or> \<not> timer_due (app_loop a') j"
    unfolding detect_inv_def by blast+
qed

interpretation app_detect: settling_client app_client "detect_inv sys cfg d0 slack t" "{1, 2}" for sys cfg d0 slack t
proof (unfold_locales, goal_cases)
  case (1 a w i a' w')
  then show ?case using detect_timer(1) [of sys cfg d0 slack t a w i a' w'] by simp
next
  case (2 a w j)
  then show ?case using wired_length by (fastforce simp: detect_inv_def outage_inv_def)
next
  case (3 a w i a' w' j)
  then show ?case using detect_timer(2) [of sys cfg d0 slack t a w i a' w' j] by simp
qed

section \<open>From pass to pass\<close>

definition detect_head :: "os \<Rightarrow> ls_config_t \<Rightarrow> nat \<Rightarrow> nat \<Rightarrow> app_t \<Rightarrow> world \<Rightarrow> bool" where
  "detect_head sys cfg d0 slack a w \<longleftrightarrow>
     unat (timeout_ms cfg) + 2 * slack < unat (interval_ms cfg) \<and>
     (if stopping (app_loop a) then in_window cfg d0 slack (nat (consecutive_fails a)) (unat (now_ms (app_loop a)))
      else paced cfg d0 slack (unat (coarse_ms sys (tick w))) a)"


text \<open>A sleep that overruns its timeout by at most \<open>slack\<close> overruns no timer by more.\<close>

lemma wakes_in_time:
  assumes "uint x \<le> uint (now_ms l) + poll_timeout_ms l + int slack" "t \<in> set (timers l)" "now_ms l < deadline_ms t"
  shows "unat x \<le> unat (deadline_ms t) + slack"
proof -
  have "uint (now_ms l) + poll_timeout_ms l \<le> uint (deadline_ms t)"
  proof (cases "0 < poll_timeout_ms l")
    case True
    with assms(2) poll_timeout_spec [of l] show ?thesis by blast
  next
    case False
    with assms(3) show ?thesis by (simp add: word_less_def)
  qed
  with assms(1) have "uint x \<le> uint (deadline_ms t) + int slack" by linarith
  then show ?thesis by (simp only: uint_nat of_nat_add [symmetric] of_nat_le_iff)
qed

lemma detect_pass:
  assumes hd: "detect_head sys cfg d0 slack a w" and inv: "outage_inv sys cfg t a w"
    and run: "\<not> stopping (app_loop a)" and body: "loop_body app_client a w = (brk, a', w')"
    and wake: "\<not> brk \<Longrightarrow> uint (coarse_ms sys (tick w')) \<le> uint (now_ms (app_loop a')) + poll_timeout_ms (app_loop a') + int slack"
  shows "detect_head sys cfg d0 slack a' w'"
proof -
  let ?now = "coarse_ms sys (tick w)"
  obtain a2 w2 where b: "outage_inv sys cfg ?now (set_app_loop ((app_loop a)\<lparr>now_ms := ?now\<rparr>) a) (w\<lparr>tick := Suc (tick w)\<rparr>)"
    "fire_timers app_client (set_app_loop ((app_loop a)\<lparr>now_ms := ?now\<rparr>) a, w\<lparr>tick := Suc (tick w)\<rparr>) = (a2, w2)"
    "outage_inv sys cfg ?now a2 w2"
    "if stopping (app_loop a2) then brk \<and> a' = a2 \<and> w' = w2
     else \<not> brk \<and> a' = set_app_loop ((app_loop a2)\<lparr>fds := set_revents [] (fds (app_loop a2))\<rparr>) a2 \<and> w' = w2\<lparr>tick := Suc (tick w2)\<rparr>"
    by (rule outage_body [OF inv run body])
  have "detect_inv sys cfg d0 slack ?now (set_app_loop ((app_loop a)\<lparr>now_ms := ?now\<rparr>) a) (w\<lparr>tick := Suc (tick w)\<rparr>)"
    using hd b(1) run by (simp add: detect_head_def detect_inv_def paced_def set_app_loop_def)
  note F = app_detect.inv_fire [OF this b(2) [unfolded fire_timers_def]] app_detect.fire_settles [OF this b(2) [unfolded fire_timers_def] sorted_upt]
  have d2: "paced cfg d0 slack (unat ?now) a2" "stopping (app_loop a2) \<longrightarrow> in_window cfg d0 slack (nat (consecutive_fails a2)) (unat ?now)"
    "now_ms (app_loop a2) = ?now" "length (timers (app_loop a2)) = 3" "reply_timer a2 = 1"
    using F(1) b(3) wired_length by (auto simp: detect_inv_def outage_inv_def app_wired_def)
  show ?thesis
  proof (cases "stopping (app_loop a2)")
    case True
    with b(4) d2 hd show ?thesis by (simp add: detect_head_def)
  next
    case False
    let ?n = "unat (coarse_ms sys (tick w'))"
    have e: "\<not> brk" "timers (app_loop a') = timers (app_loop a2)" "now_ms (app_loop a') = ?now" "\<not> stopping (app_loop a')"
      "consecutive_fails a' = consecutive_fails a2" "reply_timer a' = 1"
      using b(4) False d2(3,5) by (simp_all add: set_app_loop_def)
    have quiet: "\<not> timer_due (app_loop a2) 1" "\<not> timer_due (app_loop a2) 2"
      using F(2) [of 1] F(2) [of 2] False by (simp_all add: LS_LOOP_MAX_TIMERS_def)
    have late: "?n \<le> unat (deadline_ms (timers (app_loop a2) ! j)) + slack"
      if "j \<in> {1, 2}" "ls_timer_armed (timers (app_loop a2) ! j)" for j
      by (rule wakes_in_time [OF wake [OF e(1)]])
        (use that d2(3,4) e(2,3) quiet in \<open>auto simp: timer_due_def\<close>)
    have "ls_timer_armed (timers (app_loop a2) ! 2)" using b(3) by (auto simp: outage_inv_def ls_timer_armed_def)
    then have "paced cfg d0 slack ?n a'"
      using d2(1,5) e late [of 1] late [of 2] by (auto simp: paced_def Let_def)
    with hd e(4) show ?thesis by (simp add: detect_head_def)
  qed
qed


text \<open>The host is punctual within \<open>slack\<close> milliseconds: the loop starts no later than that after the first
  deadline of the ping timer, and a \<^verbatim>\<open>poll\<close> that reported nothing returns no later than that after
  its timeout.\<close>

definition punctual :: "os \<Rightarrow> ls_config_t \<Rightarrow> nat \<Rightarrow> bool" where
  "punctual sys cfg slack \<longleftrightarrow>
     (\<forall>a w. loop_entry (boot sys) cfg a w \<longrightarrow>
        unat (coarse_ms sys (tick w)) \<le> unat (deadline_ms (timers (app_loop a) ! ping_timer a)) + slack) \<and>
     (\<forall>a w a' w'. running (boot sys) cfg a w \<longrightarrow> \<not> stopping (app_loop a) \<longrightarrow> loop_body app_client a w = (False, a', w') \<longrightarrow>
        uint (coarse_ms sys (tick w')) \<le> uint (now_ms (app_loop a')) + poll_timeout_ms (app_loop a') + int slack)"

lemma entry_detect:
  assumes e: "loop_entry (boot sys) cfg a w" and p: "punctual sys cfg slack"
    and fit: "unat (timeout_ms cfg) + 2 * slack < unat (interval_ms cfg)"
  shows "detect_head sys cfg (unat (deadline_ms (timers (app_loop a) ! ping_timer a))) slack a w"
  using e
proof (rule loop_entry_facts)
  fix fd now
  assume z: "consecutive_fails a = 0" and l: "app_loop a = started_loop (signal_mask (boot sys)) a fd now" and t: "reply_timer a = 1" "ping_timer a = 2"
  have "\<not> reply_armed a" "\<not> stopping (app_loop a)" by (simp_all add: t) (simp_all add: l)
  moreover have "unat (coarse_ms sys (tick w)) \<le> unat (deadline_ms (timers (app_loop a) ! 2)) + slack"
    using p e t(2) unfolding punctual_def by metis
  ultimately show ?thesis
    using fit z t by (simp add: detect_head_def paced_def)
qed

lemma detect_run:
  assumes e: "loop_entry (boot sys) cfg a0 w0" and host: "outage_host sys cfg" and p: "punctual sys cfg slack"
    and fit: "unat (timeout_ms cfg) + 2 * slack < unat (interval_ms cfg)" and "loop_head app_client a0 w0 a w"
  shows "detect_head sys cfg (unat (deadline_ms (timers (app_loop a0) ! ping_timer a0))) slack a w \<and> (\<exists>t. outage_inv sys cfg t a w)"
  using assms(5)
proof (induction rule: loop_head.induct)
  case start
  show ?case using entry_detect [OF e p fit] entry_outage [OF e host] by blast
next
  case (pass a w brk a' w')
  then obtain t where t: "outage_inv sys cfg t a w" by blast
  have run: "\<not> stopping (app_loop a)" using pass by simp
  have wake: "uint (coarse_ms sys (tick w')) \<le> uint (now_ms (app_loop a')) + poll_timeout_ms (app_loop a') + int slack" if "\<not> brk"
    using p pass that e unfolding punctual_def running_def by (metis app_client_simps(1))
  show ?case
    using detect_pass [OF _ t run _ wake] outage_pass(1) [OF t run] pass by blast
qed

text \<open>The first deadline is the start delay after the reading at the end of the start-up.\<close>

lemma first_ping:
  assumes "loop_entry (boot sys) cfg a w" "clock_steady sys" "unat (start_delay_ms cfg) \<le> 2147483647"
  shows "\<exists>n. unat (deadline_ms (timers (app_loop a) ! ping_timer a)) = unat (coarse_ms sys n) + unat (start_delay_ms cfg)"
  using assms(1)
proof (rule loop_entry_facts)
  fix fd now assume c: "app_config a = cfg" and l: "app_loop a = started_loop (signal_mask (boot sys)) a fd now" and t: "ping_timer a = 2"
    and n: "\<exists>n. now = coarse_ms (world_os (boot sys)) n"
  obtain n where "now = coarse_ms sys n" using n by auto
  moreover have "unat (coarse_ms sys n) < 9223372036854775808" using assms(2) by (simp add: clock_steady_def)
  ultimately show ?thesis
    using assms(3) c by (intro exI [of _ n]) (simp add: t l started_loop_def Let_def ls_timer_arm_after_def unat_ls_add_sat)
qed

end
