(* ===== verification/LS_Sample.thy ===== *)
theory LS_Sample
  imports LS_Detect
begin

text \<open>
  A concrete outage that satisfies everything \<open>LS_Outage\<close> and \<open>LS_Detect\<close> ask of the host: no
  route to the target, a threshold of two failures, poweroff enabled. The clock shows one hour until the loop
  has read it once and ten seconds more from then on, so the daemon sleeps exactly one interval between
  its two probes. The number of system calls of the start-up has to be known for that.
\<close>

section \<open>Passes on a host that refuses every probe\<close>

lemma on_ping_refused:
  assumes "on_ping_timer a w = (a', w')" "app_wired cfg a" "\<not> reply_armed a" "icmp_usable (app_icmp a) (app_dest a)"
    "settle (os_sendto (world_os w) (tick w)) = Inl e" "send_error_is_network_condition e"
  shows "consecutive_fails a' = consecutive_fails a + 1" "timers (app_loop a') =
    (timers (app_loop a))[2 := ls_timer_step (interval_ms cfg) (now_ms (app_loop a)) (timers (app_loop a) ! 2)]"
proof -
  have idx: "ping_timer a = 2" "reply_timer a = 1" "app_config a = cfg" "ping_timer a \<noteq> reply_timer a" using assms(2) by (simp_all add: app_wired_def)
  have "consecutive_fails a' = consecutive_fails a + 1 \<and> timers (app_loop a') =
    (timers (app_loop a))[2 := ls_timer_step (interval_ms cfg) (now_ms (app_loop a)) (timers (app_loop a) ! 2)]"
    using assms(1) idx(4)
  proof (cases rule: on_ping_timer_cases)
    case (fatal ic)
    then show ?thesis using assms(4-6) by (simp add: send_status_def)
  next
    case (refused ic pkt e v b)
    have c: "core b = core ((upd_timer (ls_timer_step (interval_ms (app_config a)) (now_ms (app_loop a))) (ping_timer a) a)
      \<lparr>app_icmp := ic, consecutive_fails := consecutive_fails a + 1, app_stats := ls_stats_add_fail (app_stats a)\<rparr>)"
      using refused(9) by simp
    from check_threshold_paced(2,3) [OF refused(8)] core_agree(3,8) [OF c] idx show ?thesis by simp
  qed (use assms(3,5) in simp_all)
  then show "consecutive_fails a' = consecutive_fails a + 1" "timers (app_loop a') =
    (timers (app_loop a))[2 := ls_timer_step (interval_ms cfg) (now_ms (app_loop a)) (timers (app_loop a) ! 2)]" by blast+
qed

lemma refused_pass:
  assumes inv: "outage_inv sys cfg t a w" and run: "\<not> stopping (app_loop a)" and body: "loop_body app_client a w = (brk, a', w')"
    and idle: "\<not> ls_timer_armed (timers (app_loop a) ! 0)" "\<not> ls_timer_armed (timers (app_loop a) ! 1)"
    and due: "deadline_ms (timers (app_loop a) ! 2) \<le> coarse_ms sys (tick w)" and ref: "\<And>n. settle (os_sendto sys n) = Inl ENETUNREACH"
  shows "(brk \<longleftrightarrow> stopping (app_loop a')) \<and> consecutive_fails a' = consecutive_fails a + 1 \<and> tick w < tick w' \<and> now_ms (app_loop a') = coarse_ms sys (tick w) \<and>
    timers (app_loop a') = (timers (app_loop a))[2 := ls_timer_step (interval_ms cfg) (coarse_ms sys (tick w)) (timers (app_loop a) ! 2)]"
proof -
  let ?now = "coarse_ms sys (tick w)" and ?w1 = "w\<lparr>tick := Suc (tick w)\<rparr>"
  define a1 where "a1 = set_app_loop ((app_loop a)\<lparr>now_ms := ?now\<rparr>) a"
  obtain a2 w2 where b: "outage_inv sys cfg ?now a1 ?w1" "fire_timers app_client (a1, ?w1) = (a2, w2)" "outage_inv sys cfg ?now a2 w2" "tick w < tick w2"
    "if stopping (app_loop a2) then brk \<and> a' = a2 \<and> w' = w2
     else \<not> brk \<and> a' = set_app_loop ((app_loop a2)\<lparr>fds := set_revents [] (fds (app_loop a2))\<rparr>) a2 \<and> w' = w2\<lparr>tick := Suc (tick w2)\<rparr>"
    unfolding a1_def by (rule outage_body [OF inv run body])
  have I: "app_wired cfg a1" "icmp_usable (app_icmp a1) (app_dest a1)" "world_os ?w1 = sys" using b(1) by (simp_all add: outage_inv_def)
  have sel: "timers (app_loop a1) = timers (app_loop a)" "now_ms (app_loop a1) = ?now" "\<not> stopping (app_loop a1)" "reply_timer a1 = 1"
    "consecutive_fails a1 = consecutive_fails a"
    using run I(1) by (simp_all add: a1_def set_app_loop_def app_wired_def)
  obtain x y z where tm: "timers (app_loop a1) = [x, y, z]" "timer_cb z = On_ping_timer" using I(1) by (rule wired_timers)
  have "ls_timer_armed (timers (app_loop a1) ! 2)" using b(1) by (auto simp: outage_inv_def ls_timer_armed_def)
  then have arm: "ls_timer_armed z" by (simp add: tm(1))
  obtain c v where p: "on_ping_timer a1 ?w1 = (c, v)" by (metis surj_pair)
  note R = on_ping_refused [OF p I(1) _ I(2), of ENETUNREACH]
  have r: "consecutive_fails c = consecutive_fails a + 1" "timers (app_loop c) =
      (timers (app_loop a))[2 := ls_timer_step (interval_ms cfg) ?now (timers (app_loop a) ! 2)]"
    using R idle ref sel I(3) by (simp_all add: send_error_is_network_condition_def)
  have "length (timers (app_loop c)) = 3" using r(2) tm(1) sel(1) by simp
  moreover have "\<not> timer_due (app_loop a1) 0" "\<not> timer_due (app_loop a1) 1" "timer_due (app_loop a1) 2"
    using idle due arm tm(1) sel(1,2) by (simp_all add: timer_due_def)
  moreover have "length (timers (app_loop a1)) = 3" "timer_cb (timers (app_loop a1) ! 2) = On_ping_timer" by (simp_all add: tm)
  ultimately have "fire_timers app_client (a1, ?w1) = (c, v)"
    using p sel(3) by (auto simp: fire_timers_def LS_LOOP_MAX_TIMERS_def upt_rec numeral_2_eq_2 Let_def)
  with b(2) have "a2 = c" by simp
  with r b(3-5) show ?thesis by (auto simp: outage_inv_def set_app_loop_def split: if_splits)
qed

section \<open>System calls of a silent start-up\<close>

lemma silent_log [simp]:
  "ls_error (ls_log_init LS_LOG_SILENT) t w = w" "ls_warn (ls_log_init LS_LOG_SILENT) t w = w"
  "ls_info (ls_log_init LS_LOG_SILENT) t w = w" "ls_debug (ls_log_init LS_LOG_SILENT) t w = w"
  by (simp_all add: logger_defs ls_logger_def ls_log_init_def less_eq_ls_log_level_t_def)

lemma statusf_ticks:
  "app_statusf t a w = (a', w') \<Longrightarrow> nt_opened (app_notify a) \<Longrightarrow> last_status_ms (app_notify a) = 0 \<Longrightarrow> tick w' = tick w + 2"
  by (auto simp: app_statusf_def ls_notify_statusf_def notify_status_def notify_send_def ask_def Let_def case_prod_unfold ls_now_ms_coarse)

lemma startup_ticks:
  assumes "log_startup a w = (True, a', w')" "nt_opened (app_notify a)" "last_status_ms (app_notify a) = 0"
    "app_log a = ls_log_init LS_LOG_SILENT"
  shows "tick w' = tick w + 3"
proof -
  obtain t0 t1 t2 where "log_startup a w = (let (ready, w) = ls_notify_ready (app_notify a) (ls_info (app_log a) t0 w)
      in if \<not> ready then (False, a, ls_error (app_log a) ''Failed to send systemd READY notification'' w)
         else let (a, w) = (if start_delay_ms (app_config a) = 0 then app_statusf t1 a w else app_statusf t2 a w) in (True, a, w))"
    using log_startup_form [of a w] by blast
  then show ?thesis
    using assms(1,2,4)
    by (auto simp: ls_notify_ready_def notify_send_def ask_def Let_def dest!: statusf_ticks [OF sym, OF _ assms(2,3)] split: if_splits prod.splits)
qed

lemma wire_ticks:
  assumes "wire_loop (app\<lparr>app_loop := ls_loop_init lg\<rparr>) w = (Inr (), a, w')"
  shows "tick w' = tick w + 2"
  using assms
  by (auto simp: wire_loop_def ls_loop_watch_signals_def ls_loop_add_fd_def ls_loop_add_timer_def ls_loop_init_def Let_def ask_def
    LS_LOOP_MAX_FDS_def LS_LOOP_MAX_TIMERS_def split: option.splits sum.splits if_splits)

lemma prepare_ticks:
  assumes p: "app_prepare app w = (True, a, w')" and fd: "0 \<le> icmp_sockfd (app_icmp app)"
    and q: "nt_opened (app_notify app)" "last_status_ms (app_notify app) = 0" "app_log app = ls_log_init LS_LOG_SILENT"
  obtains fd where "tick w' = tick w + 6" "core a = core (app\<lparr>app_loop := started_loop (signal_mask w) app fd (coarse_ms (world_os w) (tick w + 2)),
    watchdog_timer := 0, reply_timer := 1, ping_timer := 2\<rparr>)"
proof -
  obtain r a1 w1 where wl: "wire_loop (app\<lparr>app_loop := ls_loop_init (app_log app)\<rparr>) w = (r, a1, w1)" by (metis prod_cases3)
  from wl fd show ?thesis
  proof (cases rule: wire_loop_cases)
    case (failed e)
    with p wl show ?thesis by (auto simp: app_prepare_def Let_def split: prod.splits)
  next
    case (wired n)
    note W = wire_ticks [OF wl [unfolded wired(1)]] and os = evolves_os [OF wired(3)]
    let ?b = "app\<lparr>app_loop := started_loop (signal_mask w) app n (coarse_ms (world_os w) (tick w + 2)), watchdog_timer := 0, reply_timer := 1, ping_timer := 2\<rparr>"
    have l: "log_startup ?b (w1\<lparr>tick := Suc (tick w1)\<rparr>) = (True, a, w')"
      using p unfolding app_prepare_wired [OF wl [unfolded wired(1)] wired(2)]
      by (auto simp: ls_now_ms_coarse W os Let_def split: prod.splits if_splits)
    from l have "core a = core ?b" by (cases rule: log_startup_cases) auto
    moreover have "tick w' = tick w + 6" using startup_ticks [OF l] q W by simp
    ultimately show ?thesis by (intro that)
  qed
qed

section \<open>The sample host\<close>

definition dead_os :: os where
  "dead_os = sample_os\<lparr>os_getenv := [''NOTIFY_SOCKET'' \<mapsto> ''@n'', ''LINKSTAY_THRESHOLD'' \<mapsto> ''2'', ''LINKSTAY_POWEROFF'' \<mapsto> ''true'',
       ''LINKSTAY_LOG_LEVEL'' \<mapsto> ''silent''],
     os_sendto := \<lambda>_. Completed (Inl ENETUNREACH),
     os_clock_coarse := \<lambda>n. Some \<lparr>tv_sec = (if n < 12 then 3600 else 3610), tv_nsec = 0\<rparr>\<rparr>"

definition dead_cfg :: ls_config_t where
  "dead_cfg = load_defaults\<lparr>fail_threshold := 2, poweroff := True, log_level := LS_LOG_SILENT\<rparr>"

lemma dead_os_simps [simp]:
  "os_getenv dead_os v = (if v = ''NOTIFY_SOCKET'' then Some ''@n'' else if v = ''LINKSTAY_THRESHOLD'' then Some ''2''
     else if v = ''LINKSTAY_POWEROFF'' then Some ''true'' else if v = ''LINKSTAY_LOG_LEVEL'' then Some ''silent'' else None)"
  "os_clock_coarse dead_os n = Some \<lparr>tv_sec = (if n < 12 then 3600 else 3610), tv_nsec = 0\<rparr>" "os_signalfd dead_os n = Inr 6"
  "os_socket dead_os n = Inr 5" "os_connect dead_os n = None" "os_send dead_os n = Completed (Inr 7)"
  "os_sendto dead_os n = Completed (Inl ENETUNREACH)" "os_sigprocmask dead_os n = None" "os_recvfrom dead_os n = Inl EAGAIN"
  "os_poll dead_os n t = Inr []" "os_inet_pton dead_os AF_INET ''1.1.1.1'' = Some [1, 1, 1, 1]"
  "os_access_x dead_os s" "os_is_dir dead_os s" "os_file_actions dead_os n = None" "os_spawn dead_os n = Inr 77"
  "os_child dead_os n = Wait_status (WIFEXITED 0)" "os_setsockopt dead_os n = None"
  by (auto simp: dead_os_def)

lemma dead_clock: "coarse_ms dead_os n = (if n < 12 then 3600000 else 3610000)"
  by (simp add: coarse_ms_def timespec_ms_def ls_add_sat_def UINT64_MAX_def LS_MS_PER_SEC_def LS_NS_PER_MS_def)

lemma dead_threshold: "apply_positive_int ''LINKSTAY_THRESHOLD'' (Some ''2'') ''failures'' = Inr 2"
  by (simp add: apply_positive_int_def has_unsigned_shape_def is_space_def c_strtoull_def is_digit_def read_nat_def digit_value_def
      INT_MAX_def Let_def)

lemma dead_texts: "apply_bool ''LINKSTAY_POWEROFF'' (Some ''true'') = Inr True" "apply_log_level ''LINKSTAY_LOG_LEVEL'' (Some ''silent'') = Inr LS_LOG_SILENT"
  by (simp_all add: apply_bool_def apply_log_level_def LOG_LEVEL_NAMES_def strcase_eq_def)

lemma dead_config: "ls_config_resolve dead_os = Inr dead_cfg"
  by (simp add: ls_config_resolve_def load_env_def ENV_SPECS_def validate_def load_defaults_eq apply_threshold_def apply_poweroff_def
      apply_level_def store_def dead_threshold dead_texts dead_cfg_def ls_addr_is_literal_def ls_addr_parse_def systemd_runtime_available_def)

lemma dead_host: "host_ready dead_os" "outage_host dead_os dead_cfg"
proof -
  show "host_ready dead_os"
    using dead_clock by (simp add: host_ready_def build_socket_addr_def sizeof_sun_path_def UINT64_MAX_def Let_def)
  show "outage_host dead_os dead_cfg"
    using dead_clock ls_config_resolve_ok [OF dead_config]
    by (simp add: outage_host_def silent_def clock_steady_def systemctl_works_def send_status_def send_error_is_network_condition_def)
qed

lemma dead_init:
  assumes "app_init dead_cfg (boot dead_os) = (r, app, w)"
  shows "r = Inr () \<and> tick w = 5 \<and> last_status_ms (app_notify app) = 0 \<and> watchdog_usec (app_notify app) = 0 \<and> nt_opened (app_notify app) \<and> world_os w = dead_os \<and> app_config app = dead_cfg
    \<and> icmp_sockfd (app_icmp app) = 5 \<and> app_log app = ls_log_init LS_LOG_SILENT"
  using assms
  by (auto simp: app_init_def dead_cfg_def load_defaults_eq Let_def ls_addr_parse_def ls_notify_init_def ask_def build_socket_addr_def
      sizeof_sun_path_def ls_icmp_open_def attach_family_filter_def attach_bpf_filter_def zero_app_def zero_notify_def ls_stats_init_def
      case_prod_unfold ls_now_ms_coarse cong: if_cong)

lemma dead_entry:
  assumes "loop_entry (boot dead_os) dead_cfg a w"
  shows "tick w = 11" "\<not> ls_timer_armed (timers (app_loop a) ! 0)" "\<not> ls_timer_armed (timers (app_loop a) ! 1)"
    "deadline_ms (timers (app_loop a) ! 2) = 3600000" "consecutive_fails a = 0" "ping_timer a = 2"
proof -
  obtain app v where i: "app_init dead_cfg (boot dead_os) = (Inr (), app, v)" and p: "app_prepare app v = (True, a, w)"
    using assms by (auto simp: loop_entry_def)
  note I = dead_init [OF i] and Z = app_init_ok [OF i]
  obtain fd where r: "tick w = tick v + 6" "core a = core (app\<lparr>app_loop := started_loop (signal_mask v) app fd (coarse_ms (world_os v) (tick v + 2)),
      watchdog_timer := 0, reply_timer := 1, ping_timer := 2\<rparr>)"
    by (rule prepare_ticks [OF p]) (use I in simp_all)
  show "tick w = 11" using r(1) I by simp
  note K = core_agree [OF r(2)]
  have "ls_notify_watchdog_interval_ms (app_notify app) = 0" using I by (simp add: ls_notify_watchdog_interval_ms_def)
  then show "\<not> ls_timer_armed (timers (app_loop a) ! 0)" "\<not> ls_timer_armed (timers (app_loop a) ! 1)"
    "deadline_ms (timers (app_loop a) ! 2) = 3600000" "consecutive_fails a = 0" "ping_timer a = 2"
    using K I Z by (simp_all add: started_loop_def wired_loop_def Let_def ls_timer_armed_def ls_timer_arm_after_def dead_clock dead_cfg_def
        load_defaults_eq ls_add_sat_def UINT64_MAX_def)
qed

section \<open>Its run\<close>

text \<open>Two states in which the loop goes on: before the first probe and before the second.\<close>

lemma dead_head:
  assumes e: "loop_entry (boot dead_os) dead_cfg a0 w0" and "loop_head app_client a0 w0 a w"
  shows "(\<exists>t. outage_inv dead_os dead_cfg t a w) \<and> \<not> ls_timer_armed (timers (app_loop a) ! 0) \<and> \<not> ls_timer_armed (timers (app_loop a) ! 1) \<and>
    (stopping (app_loop a) \<or> consecutive_fails a = 0 \<and> tick w = 11 \<and> deadline_ms (timers (app_loop a) ! 2) = 3600000 \<or>
     consecutive_fails a = 1 \<and> 11 < tick w \<and> deadline_ms (timers (app_loop a) ! 2) = 3610000)"
  using assms(2)
proof (induction rule: loop_head.induct)
  case start
  then show ?case using dead_entry [OF e] entry_outage [OF e dead_host(2)] by auto
next
  case (pass a w brk a' w')
  then obtain t where t: "outage_inv dead_os dead_cfg t a w" and run: "\<not> stopping (app_loop a)" by auto
  have iv: "interval_ms dead_cfg = 10000" "fail_threshold dead_cfg = 2" by (simp_all add: dead_cfg_def load_defaults_eq)
  have len: "length (timers (app_loop a)) = 3" using t wired_length unfolding outage_inv_def by blast
  obtain t' where t': "outage_inv dead_os dead_cfg t' a' w'" using outage_pass(1) [OF t run] pass by auto
  have "consecutive_fails a' = consecutive_fails a + 1 \<and> tick w < tick w' \<and>
    timers (app_loop a') = (timers (app_loop a))[2 := ls_timer_step 10000 (coarse_ms dead_os (tick w)) (timers (app_loop a) ! 2)]"
    using refused_pass [OF t run, of brk a' w'] pass run by (auto simp: dead_clock iv)
  moreover have "stopping (app_loop a')" if "consecutive_fails a' = 2"
    using t' that iv by (auto simp: outage_inv_def split: if_splits)
  ultimately show ?case
    using pass run t' len
    by (auto simp: dead_clock ls_timer_step_def ls_timer_armed_def ls_add_sat_def UINT64_MAX_def Let_def)
qed


text \<open>The daemon sleeps once, for one interval, and the clock then shows that this interval has passed.\<close>

lemma dead_sleep:
  assumes "running (boot dead_os) dead_cfg a w" "\<not> stopping (app_loop a)" "loop_body app_client a w = (False, a', w')"
  shows "now_ms (app_loop a') = 3600000" "coarse_ms dead_os (tick w') = 3610000" "poll_timeout_ms (app_loop a') = 10000"
proof -
  obtain a0 w0 where e: "loop_entry (boot dead_os) dead_cfg a0 w0" "loop_head app_client a0 w0 a w" using assms(1) by (auto simp: running_def)
  note H = dead_head [OF e]
  obtain t where t: "outage_inv dead_os dead_cfg t a w" using H by blast
  have iv: "interval_ms dead_cfg = 10000" "fail_threshold dead_cfg = 2" by (simp_all add: dead_cfg_def load_defaults_eq)
  obtain x y z where tm: "timers (app_loop a) = [x, y, z]" using t by (auto simp: outage_inv_def elim: wired_timers)
  have R: "\<not> stopping (app_loop a') \<and> consecutive_fails a' = consecutive_fails a + 1 \<and> tick w < tick w' \<and>
    now_ms (app_loop a') = coarse_ms dead_os (tick w) \<and> timers (app_loop a') = [x, y, ls_timer_step 10000 (coarse_ms dead_os (tick w)) z]"
    using refused_pass [OF t assms(2,3)] H assms(2) by (auto simp: dead_clock iv tm)
  obtain t' where "outage_inv dead_os dead_cfg t' a' w'" using outage_pass(1) [OF t assms(2,3)] by blast
  then have "consecutive_fails a' \<noteq> 2" using R iv by (auto simp: outage_inv_def)
  with R H assms(2) tm show "now_ms (app_loop a') = 3600000" "coarse_ms dead_os (tick w') = 3610000" "poll_timeout_ms (app_loop a') = 10000"
    by (auto simp: dead_clock poll_timeout_ms_def nearest_deadline_def ls_timer_armed_def ls_timer_step_def ls_add_sat_def UINT64_MAX_def
        INT_MAX_def Let_def)
qed

lemma dead_advances: "clock_advances dead_os dead_cfg"
  using dead_sleep by (auto simp: clock_advances_def)

lemma dead_punctual: "punctual dead_os dead_cfg 0"
  using dead_sleep dead_entry by (auto simp: punctual_def dead_clock)

end
