(* ===== verification/LS_Tests.thy ===== *)
theory LS_Tests
  imports LS_App
begin

text \<open>
  The checks of \<^verbatim>\<open>tests/unit.c\<close>, evaluated on the definitions of the model, in the order of that
  file, and the settings that \<^verbatim>\<open>systemd/linkstay.service\<close> ships. The texts accepted or refused come
  from \<^verbatim>\<open>tests/config.sh\<close> as well. What the tests ask of \<^verbatim>\<open>inet_pton\<close> is a table.
\<close>

section \<open>Helpers of base, addr, log and loop\<close>

lemma test_error_type:
  "ls_err_set ''code 7'' = (Inl ''code 7'' :: ls_err_t + unit)"
  "ls_err_set (replicate 299 (CHR ''x'')) = (Inl (replicate 255 (CHR ''x'')) :: ls_err_t + unit)"
  by (simp_all add: ls_err_set_def c_snprintf_def)

lemma test_saturating_math:
  "ls_add_sat 1 2 = 3" "ls_add_sat (UINT64_MAX - 1) 1 = UINT64_MAX" "ls_add_sat UINT64_MAX 1 = UINT64_MAX"
  "ls_mul_sat 3 4 = 12" "ls_mul_sat UINT64_MAX 0 = 0" "ls_mul_sat UINT64_MAX 2 = UINT64_MAX"
  "ls_mul_sat (UINT64_MAX div 2 + 1) 2 = UINT64_MAX"
  by code_simp+

lemmas show_eval = show_u64_def show_nat.simps digit_char_def c_snprintf_def char_of_def bit_0

lemma test_duration_format:
  "ls_format_duration 0 64 = ''0ms''" "ls_format_duration 999 64 = ''999ms''" "ls_format_duration 1000 64 = ''1s''"
  "ls_format_duration 1500 64 = ''1500ms''" "ls_format_duration 60000 64 = ''60s''"
  by code_simp+

lemma test_latency_format:
  "ls_format_latency (-1) 64 = ''0.000ms''" "ls_format_latency (4 / 1000) 64 = ''0.004ms''" "ls_format_latency 1 64 = ''1.00ms''"
  "ls_format_latency (85 / 2) 64 = ''42.50ms''" "ls_format_latency 100 64 = ''100.0ms''" "ls_format_latency (301 / 2) 64 = ''150.5ms''"
  by code_simp+

lemma test_uptime_format:
  "ls_format_uptime 0 64 = ''0s''" "ls_format_uptime 59 64 = ''59s''" "ls_format_uptime 60 64 = ''1m0s''" "ls_format_uptime 3599 64 = ''59m59s''"
  "ls_format_uptime 3600 64 = ''1h0m0s''" "ls_format_uptime 86400 64 = ''1d0h0m0s''" "ls_format_uptime 90061 64 = ''1d1h1m1s''"
  "ls_format_uptime 3661 5 = ''1h1m''"
  by code_simp+

lemma test_uptime_max: "ls_format_uptime UINT64_MAX 64 = ''213503982334601d7h0m15s''"
  by (simp add: ls_format_uptime_def UINT64_MAX_def show_eval)

lemma test_log_level_names:
  "map (\<lambda>l. ls_log_level_name (level_value l)) [LS_LOG_SILENT, LS_LOG_ERROR, LS_LOG_WARN, LS_LOG_INFO, LS_LOG_DEBUG] =
     [''SILENT'', ''ERROR'', ''WARN'', ''INFO'', ''DEBUG'']" "ls_log_level_name 99 = ''UNKNOWN''"
  by code_simp+

lemma test_timer_helpers:
  fixes t :: "app_timer_cb ls_timer_t"
  defines "t0 \<equiv> t\<lparr>deadline_ms := UINT64_MAX\<rparr>"
  defines "t1 \<equiv> ls_timer_arm_after 1000 500 t0"
  defines "t2 \<equiv> ls_timer_step 500 1400 t1"
  defines "t3 \<equiv> ls_timer_step 500 3000 t2"
  defines "t4 \<equiv> ls_timer_step 0 4000 t3"
  defines "t5 \<equiv> ls_timer_step 100 500 (ls_timer_disarm t4)"
  shows "\<not> ls_timer_armed t0" "deadline_ms t1 = 1500" "ls_timer_armed t1" "deadline_ms t2 = 2000" "deadline_ms t3 = 3500"
    "\<not> ls_timer_armed t4" "deadline_ms t5 = 600" "deadline_ms (ls_timer_arm_after (UINT64_MAX - 2) 10 t5) = UINT64_MAX"
  unfolding t5_def t4_def t3_def t2_def t1_def t0_def
  by (simp_all add: ls_timer_armed_def ls_timer_arm_after_def ls_timer_step_def ls_timer_disarm_def ls_add_sat_def UINT64_MAX_def)


section \<open>Statistics\<close>

definition test_stats2 :: ls_stats_t where
  "test_stats2 = ls_stats_add_ok 20 (ls_stats_add_ok 10 (fst (ls_stats_init (boot sample_os))))"

lemma test_stats_init:
  "let s = fst (ls_stats_init (boot sample_os)) in ls_stats_total s = 0 \<and> ls_stats_success_rate s = 0 \<and> ls_stats_avg_latency_ms s = 0 \<and>
     ls_stats_min_latency_ms s = 0 \<and> ls_stats_max_latency_ms s = 0"
  by code_simp

lemma rnd64_numeral:
  "rnd64 0 = 0" "rnd64 1 = 1" "numeral n < (9007199254740992 :: nat) \<Longrightarrow> rnd64 (numeral n) = numeral n"
  using b64.rnd_nat [of 0] b64.rnd_nat [of 1] b64.rnd_nat [of "numeral n"] by simp_all

lemmas stats_eval = test_stats2_def ls_stats_init_def ls_stats_add_ok_def latency_to_us_def double_to_u64_def dmul_def ddiv_def
  u64_to_double_def LS_US_PER_MS_F_def LS_US_PER_MS_def rnd64_numeral ls_add_sat_def LS_STATS_NO_SAMPLE_def UINT64_MAX_def Let_def
  case_prod_unfold ls_stats_total_def ls_stats_success_rate_def ls_stats_avg_latency_ms_def ls_stats_min_latency_ms_def
  ls_stats_max_latency_ms_def

lemma test_stats_ok:
  "ls_stats_total test_stats2 = 2" "st_ok test_stats2 = 2" "st_failed test_stats2 = 0" "ls_stats_success_rate test_stats2 = 100"
  "ls_stats_avg_latency_ms test_stats2 = 15" "ls_stats_min_latency_ms test_stats2 = 10" "ls_stats_max_latency_ms test_stats2 = 20"
  by (simp_all add: stats_eval)

lemma test_stats_fail:
  "ls_stats_total (ls_stats_add_fail test_stats2) = 3" "st_failed (ls_stats_add_fail test_stats2) = 1"
  by (simp_all add: stats_eval ls_stats_add_fail_def)

lemma test_stats_negative: "latency_min_us (ls_stats_add_ok (-5) test_stats2) = 0" "ls_stats_min_latency_ms (ls_stats_add_ok (-5) test_stats2) = 0"
  by (simp_all add: stats_eval)

section \<open>Addresses\<close>

definition test_pton :: "nat \<Rightarrow> string \<Rightarrow> u8 list option" where
  "test_pton family text =
     (if family = AF_INET
      then map_of [(''1.1.1.1'', [1, 1, 1, 1]), (''8.8.8.8'', [8, 8, 8, 8]), (''127.0.0.1'', [127, 0, 0, 1])] text
      else map_of [(''::1'', replicate 15 0 @ [1])] text)"

definition test_os :: "(string \<times> string) list \<Rightarrow> os" where
  "test_os env = sample_os\<lparr>os_getenv := map_of env, os_inet_pton := test_pton\<rparr>"

lemma test_addr_parse:
  "map_sum id (\<lambda>(a, len). (ss_family a, len)) (ls_addr_parse (test_os []) (Some ''127.0.0.1'')) = Inr (AF_INET, sizeof_sockaddr_in)"
  "map_sum id (\<lambda>(a, len). (ss_family a, len)) (ls_addr_parse (test_os []) (Some ''::1'')) = Inr (AF_INET6, sizeof_sockaddr_in6)"
  "ls_addr_is_literal (test_os []) (Some ''1.1.1.1'')" "\<not> ls_addr_is_literal (test_os []) (Some ''example.com'')"
  "\<not> ls_addr_is_literal (test_os []) (Some [])" "\<not> ls_addr_is_literal (test_os []) None"
  "ls_addr_parse (test_os []) None = Inl ''Invalid address parse arguments''"
  by code_simp+


section \<open>Configuration\<close>

lemmas parse_eval = apply_duration_def apply_positive_int_def has_unsigned_shape_def is_space_def c_strtoull_def is_digit_def
  read_nat_def digit_value_def INT_MAX_def ckd_mul_def LS_MS_PER_SEC_def display_def Let_def

lemma unit_texts:
  "apply_duration ''LINKSTAY_INTERVAL'' (Some ''10s'') False 2147483647000 = Inr 10000"
  "apply_duration ''LINKSTAY_TIMEOUT'' (Some ''3000ms'') False 2147483647 = Inr 3000"
  "apply_duration ''LINKSTAY_START_DELAY'' (Some ''30s'') True 2147483647 = Inr 30000"
  "apply_positive_int ''LINKSTAY_THRESHOLD'' (Some ''5'') ''failures'' = Inr 5"
  "apply_bool ''LINKSTAY_POWEROFF'' (Some ''true'') = Inr True" "apply_log_level ''LINKSTAY_LOG_LEVEL'' (Some ''info'') = Inr LS_LOG_INFO"
  by (simp_all add: parse_eval apply_bool_def apply_log_level_def LOG_LEVEL_NAMES_def strcase_eq_def to_lower_def)

definition unit_env :: "(string \<times> string) list" where
  "unit_env = [(''LINKSTAY_TARGET'', ''1.1.1.1''), (''LINKSTAY_INTERVAL'', ''10s''), (''LINKSTAY_THRESHOLD'', ''5''),
     (''LINKSTAY_TIMEOUT'', ''3000ms''), (''LINKSTAY_START_DELAY'', ''30s''), (''LINKSTAY_POWEROFF'', ''true''),
     (''LINKSTAY_LOG_LEVEL'', ''info'')]"

lemma test_unit_defaults:
  "ls_config_resolve (test_os unit_env) = Inr \<lparr>target = ''1.1.1.1'', interval_ms = 10000, fail_threshold = 5, timeout_ms = 3000,
     start_delay_ms = 30000, poweroff = True, log_level = LS_LOG_INFO\<rparr>"
  by (simp add: ls_config_resolve_def load_env_def ENV_SPECS_def validate_def load_defaults_eq unit_env_def test_os_def store_def
    apply_target_def apply_string_def c_snprintf_def apply_interval_def apply_threshold_def apply_timeout_def apply_start_delay_def apply_poweroff_def apply_level_def unit_texts
    INT_MAX_def LS_MS_PER_SEC_def ls_addr_is_literal_def ls_addr_parse_def test_pton_def systemd_runtime_available_def)


text \<open>Values that the tests expect to be refused, with the message they look for.\<close>

lemma test_config_invalid_values:
  "\<exists>m. apply_duration ''LINKSTAY_INTERVAL'' (Some ''5S'') False 2147483647000 = Inl (''Invalid value for LINKSTAY_INTERVAL'' @ m)"
  "\<exists>m. apply_duration ''LINKSTAY_INTERVAL'' (Some ''+5s'') False 2147483647000 = Inl (''Invalid value for LINKSTAY_INTERVAL'' @ m)"
  "\<exists>m. apply_duration ''LINKSTAY_INTERVAL'' (Some ''2'') False 2147483647000 = Inl (''Invalid value for LINKSTAY_INTERVAL'' @ m)"
  "\<exists>m. apply_duration ''LINKSTAY_INTERVAL'' (Some ''0s'') False 2147483647000 = Inl (''Invalid value for LINKSTAY_INTERVAL'' @ m)"
  "\<exists>m. apply_duration ''LINKSTAY_TIMEOUT'' (Some ''1.5s'') False 2147483647 = Inl (''Invalid value for LINKSTAY_TIMEOUT'' @ m)"
  "\<exists>m. apply_duration ''LINKSTAY_TIMEOUT'' (Some ''1m'') False 2147483647 = Inl (''Invalid value for LINKSTAY_TIMEOUT'' @ m)"
  "\<exists>m. apply_duration ''LINKSTAY_START_DELAY'' (Some ''-1s'') True 2147483647 = Inl (''Invalid value for LINKSTAY_START_DELAY'' @ m)"
  "\<exists>m. apply_positive_int ''LINKSTAY_THRESHOLD'' (Some ''0'') ''failures'' = Inl (''Invalid value for LINKSTAY_THRESHOLD'' @ m)"
  "\<exists>m. apply_positive_int ''LINKSTAY_THRESHOLD'' (Some ''xyz'') ''failures'' = Inl (''Invalid value for LINKSTAY_THRESHOLD'' @ m)"
  "\<exists>m. apply_bool ''LINKSTAY_POWEROFF'' (Some ''1'') = Inl (''Invalid value for LINKSTAY_POWEROFF'' @ m)"
  "\<exists>m. apply_log_level ''LINKSTAY_LOG_LEVEL'' (Some ''bogus'') = Inl (''Invalid value for LINKSTAY_LOG_LEVEL'' @ m)"
  by (simp_all add: parse_eval apply_bool_def apply_log_level_def LOG_LEVEL_NAMES_def strcase_eq_def to_lower_def invalid_duration_def
    invalid_value_def ls_err_set_def c_snprintf_def)

lemma test_config_validation:
  "validate (test_os []) (load_defaults\<lparr>target := []\<rparr>) = Inl ''Target host cannot be empty''"
  "validate (test_os []) (load_defaults\<lparr>target := ''example.com''\<rparr>) =
     Inl ''Target must be a valid IPv4 or IPv6 address (DNS is disabled)''"
  "validate (test_os []) (load_defaults\<lparr>interval_ms := 1000, timeout_ms := 1000\<rparr>) =
     Inl ''Timeout (1000 ms) must be smaller than interval (1000 ms)''"
  by (simp_all add: validate_def load_defaults_eq ls_addr_is_literal_def ls_addr_parse_def test_os_def test_pton_def ls_err_set_def
    show_eval AF_INET_def AF_INET6_def)

end
