(* ===== verification/Spec2Isabelle.thy ===== *)
theory Spec2Isabelle
  imports LS_Signals LS_Sample LS_Tests
begin

text \<open>
  LinkStay is a systemd service in C that probes one IP address with ICMP echo requests and powers
  the host off after a number of consecutive failures. This development models its whole
  implementation, \<^verbatim>\<open>src/src/*.c\<close> and \<^verbatim>\<open>*.h\<close>, as executable definitions with the
  names of the source, and proves what the service relies on.

  \<^bold>\<open>The program.\<close> \<^verbatim>\<open>main\<close> resolves the configuration from the environment
  (\<^verbatim>\<open>config\<close>), opens the systemd notification channel (\<^verbatim>\<open>notify\<close>) and a raw ICMP
  socket (\<^verbatim>\<open>icmp\<close>), registers signals, the socket and three timers with a poll loop
  (\<^verbatim>\<open>loop\<close>), announces READY and runs the loop. The ping timer sends a probe and arms the
  reply timer; a matching reply or the reply timer decides the probe and updates the statistics
  (\<^verbatim>\<open>stats\<close>) and the run of failures; at the threshold the policy in \<^verbatim>\<open>app\<close> spawns
  \<^verbatim>\<open>systemctl poweroff\<close> or, in a dry run, stops. \<^verbatim>\<open>base\<close>, \<^verbatim>\<open>log\<close> and
  \<^verbatim>\<open>addr\<close> are shared helpers.

  \<^bold>\<open>Theories and sources.\<close>
  \<^item> \<open>LS_Prelude\<close>: C strings, printing and parsing of numbers, word arithmetic, shared lemmas.
  \<^item> \<open>LS_Os\<close>: the boundary. Every answer of the kernel is a field of the record \<open>os\<close>, about
    which nothing is assumed; the \<open>world\<close> carries it, a call counter and the trace of effects;
    \<open>evolves\<close> is the frame condition of all operations. \<open>signal_mask\<close> is the set of blocked signals
    after a trace. The classic BPF machine is here too.
  \<^item> \<open>LS_Double\<close>: binary64 rounding, as far as the statistics need it; a division by zero has no
    specified result.
  \<^item> \<open>LS_Base\<close> (\<^verbatim>\<open>base.c/h\<close>), \<open>LS_Log\<close> (\<^verbatim>\<open>log.c/h\<close>), \<open>LS_Addr\<close>
    (\<^verbatim>\<open>addr.c/h\<close>), \<open>LS_Stats\<close> (\<^verbatim>\<open>stats.c/h\<close>), \<open>LS_Config\<close>
    (\<^verbatim>\<open>config.c/h\<close>), \<open>LS_Icmp\<close> (\<^verbatim>\<open>icmp.c/h\<close>), \<open>LS_Notify\<close>
    (\<^verbatim>\<open>notify.c/h\<close>), \<open>LS_Loop\<close> (\<^verbatim>\<open>loop.c/h\<close>): one component each, one
    definition per function, its properties at the end.
  \<^item> \<open>LS_App\<close> and \<open>LS_Main\<close> (\<^verbatim>\<open>app.c\<close>): the callbacks and the policy; start-up,
    shutdown and \<^verbatim>\<open>main\<close>.
  \<^item> \<open>LS_Action\<close>: the outcome of a shutdown attempt, termination of its observation, the bound of
    a wake-up, and the reply that is already waiting when its timer fires. \<open>LS_Timers\<close>: every callback moves its own timer forward.
  \<^item> \<open>LS_Monitor\<close>: the abstract monitor (history of outcomes, at most one outstanding probe,
    attempts, halted) as an inductive step relation, and the proof that every callback is a step of it.
  \<^item> \<open>LS_Own\<close>: the accounting of descriptors and of the signal mask in a trace and who owns them.
    \<open>LS_Run\<close>, \<open>LS_Start\<close>, \<open>LS_Life\<close>: what the loop may do and leaves alone, start-up by stages, runs of \<open>ls_main\<close> taken apart.
  \<^item> \<open>LS_Ready\<close>, \<open>LS_Signals\<close>, \<open>LS_Outage\<close>, \<open>LS_Detect\<close>: progress. A host that
    cooperates brings the daemon to its loop; a termination signal ends it; a network that stays silent
    leads to the threshold action, and within a time window the configuration fixes. \<open>LS_Sample\<close> runs
    an outage with two probes and a sleep between them through all of this, for the witnesses.
  \<^item> \<open>LS_Tests\<close>: the checks of \<^verbatim>\<open>tests/unit.c\<close> and the settings of the shipped unit, evaluated on
    the model.
  \<^item> This theory: properties of whole runs.

  \<^bold>\<open>Interfaces.\<close> The contract between the event loop and its owner is a chain of locales in
  \<open>LS_Loop\<close>. \<open>loop_lens\<close>: the loop object is a lens of the owner's state; then a loop that
  returns does so exactly because a stop was requested, and one with a falling measure returns.
  \<open>timer_client\<close>: timer callbacks keep an invariant. \<open>loop_client\<close>: so do the descriptor and
  signal callbacks; the invariant then holds whenever the loop tests its condition.
  \<open>progress_client\<close>: every due timer that fires raises a potential. \<open>settling_client\<close>: some slots are
  not due any more after a pass over the timers. They are interpreted on the
  application: the lens (\<open>app_lens\<close>), the simulation relation to the monitor (\<open>app_mon\<close>), the
  frame of the run (\<open>app_frame\<close>), the course of an outage (\<open>app_outage\<close>) and its time grid
  (\<open>app_detect\<close>).
  \<open>owner\<close> (in \<open>LS_Own\<close>) is the contract of a component that acquires descriptors and gives them
  back: after setting up, anything balanced in itself and tearing down, every descriptor has its old
  balance. The notification channel (\<open>notify_own\<close>), the ICMP socket (\<open>icmp_own\<close>) and, from these
  two, the application (\<open>app_own\<close>) interpret it.
  \<open>monotone_rounding\<close> (in \<open>LS_Double\<close>) is what the statistics use of binary64 arithmetic;
  it is interpreted on the rounding of the model (\<open>b64\<close>).

  \<^bold>\<open>What is shown.\<close> Parsing and printing of every setting, exactly; statistics as a function of the
  history and their rounding; well-formed requests (the checksum against the sum of RFC 1071, defined
  independently of the code), sound matching of replies, transparency of the kernel
  filter, freshness of sequence numbers; the notification protocol and the watchdog contract; timer
  arithmetic, poll timeouts and signal registration with its error paths; the outcome of the threshold
  action on every branch; and, for whole runs, refinement of the monitor, no premature power-off, a single
  possible command, the order READY, monitoring, STOPPING, release of all descriptors and return to the
  inherited signal mask (unless the kernel refuses the call) on every exit, termination on SIGINT and SIGTERM, the behaviour on a refused configuration,
  start-up on a host that cooperates and, for an outage from beginning to end, that \<^verbatim>\<open>main\<close>
  returns after exactly \<open>fail_threshold\<close> probes with the command spawned exactly once (or never, in
  a dry run), and when: \<open>fail_threshold - 1\<close> intervals after the first probe, up to a timeout and twice
  the lateness of the host's wake-ups later. For the shipped unit that is 70 to 73 seconds after the
  start-up, apart from that lateness.

  \<^bold>\<open>Modelling decisions.\<close>
  \<^item> Machine integers are words of their width, and the casts to \<^verbatim>\<open>int\<close> (the poll timeout) and
    \<^verbatim>\<open>pid_t\<close> (the watchdog's process id) narrow to 32 bits; \<^verbatim>\<open>consecutive_fails\<close> is an \<open>int\<close>, since
    overflow of the C \<^verbatim>\<open>int\<close> is undefined (it takes more than \<^verbatim>\<open>INT_MAX\<close> failures in a
    row).
  \<^item> The event loop is a \<open>while_option\<close>: \<open>None\<close> is a process that never exits. Nothing is fuel.
    A system call in an EINTR loop is an \<open>attempt\<close>, interrupted finitely often; the answers of
    \<^verbatim>\<open>waitpid\<close> form a finite but arbitrarily long list (\<open>child_obs\<close>), and
    \<open>observe_startup\<close> first reads the clock and then takes them up, and
    \<open>observe_startup_terminates\<close> shows that the loop never depends on more of it than fits one second
    of clock readings.
  \<^item> The signal mask is what the calls in the trace make of the inherited one, \<open>os_sigmask\<close>.
    \<open>Block_signals\<close> is a \<^verbatim>\<open>SIG_BLOCK\<close> the kernel accepted. \<open>Restore_signals m r\<close> is a
    \<^verbatim>\<open>SIG_SETMASK\<close> with the mask \<open>m\<close> and the kernel's answer \<open>r\<close>; it changes the mask only if
    accepted. \<^verbatim>\<open>previous_mask\<close> holds the mask that was in force when the signals were blocked.
  \<^item> A pointer to a timer is the index of its slot; a callback with its \<^verbatim>\<open>userdata\<close> is a name that
    \<open>app_client\<close> interprets. An echo request in the trace carries its bytes, its destination and
    the answer of the kernel. Formatted messages are cut as \<^verbatim>\<open>snprintf\<close> cuts them.
  \<^item> Safety rests on one hypothesis about the kernel at most, \<open>clock_sane\<close>: the monotonic clock,
    which counts from boot, reads less than \<open>2 ^ 63\<close> milliseconds. Progress needs more of the host:
    \<open>host_ready\<close> (the notification socket can be reached, descriptors, the signal mask and the clock
    are to be had) and, during an outage, \<open>silent\<close> (no packet arrives, no descriptor becomes
    ready, echo requests are taken or refused for a network reason), \<open>clock_steady\<close> and
    \<open>clock_advances\<close> (the clock does not run backwards, and moves on while the daemon sleeps) and
    \<open>systemctl_works\<close>; for the time window also \<open>punctual\<close> (it wakes the daemon at most so much too
    late). \<open>demo_os\<close> and \<open>dead_os\<close> satisfy them.

  \<^bold>\<open>Not modelled.\<close> Branches on null arguments (no caller passes one), the build (\<^verbatim>\<open>Makefile\<close>),
  the unit and configuration files under \<^verbatim>\<open>systemd/\<close> (but for the settings the unit ships), and the
  shell tests, which drive the built program.
\<close>

section \<open>Properties of whole runs\<close>

text \<open>C1: The daemon refines the abstract monitor. In every state in which the event loop tests its condition
  there is a reachable state of the monitor that agrees with it: the run of failures is the number of
  failures at the end of the outcome history, the statistics are those of the history from fresh
  counters, a probe is outstanding exactly when the reply timer is armed, the loop is told to stop
  exactly when the monitor has halted, with the same code, at most one command was spawned per attempt,
  and every outcome belongs to an echo request that was sent.\<close>
theorem daemon_refines_monitor:
  assumes "clock_sane sys" "running (boot sys) cfg a w"
  shows "\<exists>m v. mon_reach (fail_threshold cfg) (poweroff cfg) m \<and> mon_rel (fst (ls_stats_init v)) a w m"
proof -
  obtain a1 w1 where e: "loop_entry (boot sys) cfg a1 w1" "mon_inv cfg (app_stats a1) a w"
    using running_mon [OF assms(2,1)] by metis
  from entry_stats [OF e(1)] e(2) show ?thesis unfolding mon_inv_def by metis
qed

theorem daemon_refines_monitor_witness:
  "\<exists>a w m v. loop_entry (boot demo_os) demo_cfg a w \<and> mon_reach 5 False m \<and> mon_rel (fst (ls_stats_init v)) a w m"
proof -
  obtain a w where e: "loop_entry (boot demo_os) demo_cfg a w" using demo_entry by blast
  from daemon_refines_monitor [OF demo_clock running_start [OF e]] e show ?thesis
    by (auto simp: demo_cfg_def load_defaults_eq)
qed

text \<open>C2: No premature power-off. If the daemon has spawned a command, poweroff is enabled and there is a
  history of probe outcomes, one per echo request sent at most, in which the threshold was reached at
  least as often as a command was spawned: never fewer than \<open>fail_threshold\<close> failures in a row
  precede an attempt. A dry run that is still monitoring has never reached the threshold.\<close>
theorem no_premature_poweroff:
  assumes "clock_sane sys" "running (boot sys) cfg a w"
  shows "\<exists>h v. app_stats a = fold stats_apply h (fst (ls_stats_init v)) \<and> consecutive_fails a = int (trailing_fails h) \<and>
    length h \<le> echoes w \<and> spawns w \<le> threshold_hits (fail_threshold cfg) h \<and> (spawns w = 0 \<or> poweroff cfg) \<and>
    (poweroff cfg \<or> stopping (app_loop a) \<or> threshold_hits (fail_threshold cfg) h = 0)"
proof -
  obtain a1 w1 where e: "loop_entry (boot sys) cfg a1 w1" "mon_inv cfg (app_stats a1) a w"
    using running_mon [OF assms(2,1)] by metis
  obtain m where m: "mon_reach (fail_threshold cfg) (poweroff cfg) m" "mon_rel (app_stats a1) a w m"
    using e(2) by (auto simp: mon_inv_def)
  obtain v where "app_stats a1 = fst (ls_stats_init v)" using entry_stats [OF e(1)] by blast
  with m(2) mon_reach_invariant [OF m(1)] show ?thesis
    by (intro exI [of _ "hist m"] exI [of _ v]) (auto simp: mon_rel_def split: if_splits)
qed

theorem no_premature_poweroff_witness:
  "\<exists>a w. loop_entry (boot demo_os) demo_cfg a w \<and> spawns w = 0"
proof -
  obtain a w where e: "loop_entry (boot demo_os) demo_cfg a w" using demo_entry by blast
  from no_premature_poweroff [OF demo_clock running_start [OF e]] e show ?thesis
    by (auto simp: demo_cfg_def load_defaults_eq)
qed

text \<open>C3: An outage ends in a shutdown. Suppose the configuration is accepted and the host lets the daemon start,
  and the network is dead: no packet arrives, no descriptor becomes ready, and every echo request is taken by
  the kernel or refused for a network reason; the clock never runs backwards and moves on while the daemon
  sleeps; and, if poweroff is enabled, \<^verbatim>\<open>systemctl\<close> can be spawned and exits with status 0. Then
  \<^verbatim>\<open>main\<close> returns, with success, after exactly \<open>fail_threshold\<close> echo requests, and it has spawned
  the shutdown command exactly once if poweroff is enabled and never otherwise.\<close>
theorem outage_leads_to_shutdown:
  assumes "ls_config_resolve sys = Inr cfg" "host_ready sys"
    and "silent sys" "clock_steady sys" "clock_advances sys cfg" "poweroff cfg \<longrightarrow> systemctl_works sys"
  shows "\<exists>w. ls_main (boot sys) = Some (LS_EXIT_SUCCESS, w) \<and> int (echoes w) = fail_threshold cfg \<and>
    spawns w = (if poweroff cfg then 1 else 0)"
proof -
  obtain a1 w1 where e: "loop_entry (boot sys) cfg a1 w1" using startup_entry [OF assms(1,2)] by blast
  have host: "outage_host sys cfg" using assms ls_config_resolve_ok by (simp add: outage_host_def)
  obtain a w t where r: "running (boot sys) cfg a w" "outage_inv sys cfg t a w" "stopping (app_loop a)"
    by (rule outage_ends [OF e host assms(5)])
  obtain w' where "ls_main (boot sys) = Some (lp_exit_code (app_loop a), w')" "spawns w' = spawns w" "echoes w' = echoes w"
    by (rule exit_counts [OF r(1,3)])
  with r(2,3) show ?thesis by (auto simp: outage_inv_def)
qed

theorem outage_leads_to_shutdown_witness:
  "\<exists>w. ls_main (boot dead_os) = Some (LS_EXIT_SUCCESS, w) \<and> echoes w = 2 \<and> spawns w = 1"
proof -
  have "silent dead_os" "clock_steady dead_os" "systemctl_works dead_os"
    using dead_host(2) by (simp_all add: outage_host_def dead_cfg_def)
  with outage_leads_to_shutdown [OF dead_config dead_host(1) _ _ dead_advances] show ?thesis
    by (auto simp: dead_cfg_def)
qed

text \<open>C4: How long an outage goes unnoticed. In an outage as above, on a host that wakes the daemon at most
  \<open>slack\<close> milliseconds late, with the timeout and twice the slack shorter than the interval, the loop is
  left with success at a time that is fixed by the configuration: the last probe is due \<open>fail_threshold - 1\<close>
  intervals after the first, which is due the start delay after the clock reading at start-up, and the
  action follows no earlier than that and no later than one timeout and twice the slack after it. The
  lateness of the wake-ups does not add up.\<close>
theorem outage_detection_time:
  assumes "ls_config_resolve sys = Inr cfg" "loop_entry (boot sys) cfg a0 w0"
    and "silent sys" "clock_steady sys" "clock_advances sys cfg" "poweroff cfg \<longrightarrow> systemctl_works sys"
    and "punctual sys cfg slack" "unat (timeout_ms cfg) + 2 * slack < unat (interval_ms cfg)"
  shows "\<exists>a w first n last. ls_loop_run app_client a0 w0 = Some (LS_EXIT_SUCCESS, a, w) \<and>
    first = unat (deadline_ms (timers (app_loop a0) ! ping_timer a0)) \<and> first = unat (coarse_ms sys n) + unat (start_delay_ms cfg) \<and>
    last = first + (nat (fail_threshold cfg) - 1) * unat (interval_ms cfg) \<and>
    last \<le> unat (now_ms (app_loop a)) \<and> unat (now_ms (app_loop a)) \<le> last + unat (timeout_ms cfg) + 2 * slack"
proof -
  have ok: "config_ok sys cfg" by (rule ls_config_resolve_ok [OF assms(1)])
  have host: "outage_host sys cfg" using assms(3,4,6) ok by (simp add: outage_host_def)
  obtain a w t where r: "ls_loop_run app_client a0 w0 = Some (LS_EXIT_SUCCESS, a, w)" "outage_inv sys cfg t a w" "stopping (app_loop a)"
    by (rule outage_ends [OF assms(2) host assms(5)])
  have "detect_head sys cfg (unat (deadline_ms (timers (app_loop a0) ! ping_timer a0))) slack a w"
    using detect_run [OF assms(2) host assms(7,8) app_lens.run_result(1) [OF r(1)]] by blast
  moreover have "consecutive_fails a = fail_threshold cfg" using r(2,3) by (simp add: outage_inv_def)
  moreover obtain n where "unat (deadline_ms (timers (app_loop a0) ! ping_timer a0)) = unat (coarse_ms sys n) + unat (start_delay_ms cfg)"
    using first_ping [OF assms(2,4)] ok by (auto simp: config_ok_def)
  ultimately show ?thesis
    using r(1,3) by (auto simp: detect_head_def in_window_def)
qed

theorem outage_detection_time_witness:
  "\<exists>a0 w0 a w. loop_entry (boot dead_os) dead_cfg a0 w0 \<and> ls_loop_run app_client a0 w0 = Some (LS_EXIT_SUCCESS, a, w) \<and>
    3610000 \<le> unat (now_ms (app_loop a)) \<and> unat (now_ms (app_loop a)) \<le> 3613000"
proof -
  obtain a0 w0 where e: "loop_entry (boot dead_os) dead_cfg a0 w0" using startup_entry [OF dead_config dead_host(1)] by blast
  have "silent dead_os" "clock_steady dead_os" "systemctl_works dead_os"
    using dead_host(2) by (simp_all add: outage_host_def dead_cfg_def)
  moreover have "unat (timeout_ms dead_cfg) + 2 * 0 < unat (interval_ms dead_cfg)" by (simp add: dead_cfg_def load_defaults_eq)
  ultimately show ?thesis
    using outage_detection_time [OF dead_config e _ _ dead_advances _ dead_punctual] e
      dead_entry(4,6) [OF e]
    by (fastforce simp: dead_cfg_def load_defaults_eq)
qed

text \<open>C6: One command, on permission. Whatever happens, the only program a run ever spawns is
  \<^verbatim>\<open>/usr/bin/systemctl --no-block poweroff\<close> with a fixed, minimal environment, and it spawns, kills or
  reaps a child only if the configuration enables poweroff.\<close>
theorem shutdown_command_only:
  assumes "running (boot sys) cfg a w"
  shows "list_all (\<lambda>e. case e of
      Spawn path argv envp \<Rightarrow> poweroff cfg \<and> path = ''/usr/bin/systemctl'' \<and>
        argv = [''/usr/bin/systemctl'', ''--no-block'', ''poweroff''] \<and>
        envp = [''PATH=/usr/bin:/usr/sbin:/bin:/sbin'', ''LC_ALL=C'']
    | Kill_child pid \<Rightarrow> poweroff cfg
    | Reap_child pid \<Rightarrow> poweroff cfg
    | _ \<Rightarrow> True) (trace w)"
proof (rule running_trace [OF assms])
  let ?P = "\<lambda>e. case e of
      Spawn path argv envp \<Rightarrow> poweroff cfg \<and> path = ''/usr/bin/systemctl'' \<and>
        argv = [''/usr/bin/systemctl'', ''--no-block'', ''poweroff''] \<and>
        envp = [''PATH=/usr/bin:/usr/sbin:/bin:/sbin'', ''LC_ALL=C'']
    | Kill_child pid \<Rightarrow> poweroff cfg | Reap_child pid \<Rightarrow> poweroff cfg | _ \<Rightarrow> True"
  fix u mid tgt
  assume u: "evolves setup_effect (boot sys) u" and t: "trace w = trace u @ [Notify_send ''READY=1'' True] @ mid"
    and m: "list_all (loop_effect (poweroff cfg) tgt) mid"
  have "list_all ?P (trace u)"
    using u by (auto simp: evolves_def elim!: list.pred_mono_strong simp: setup_effect_def split: effect.splits)
  moreover have "list_all ?P mid"
    using m by (rule list.pred_mono_strong)
      (auto simp: loop_effect_def LS_SYSTEMCTL_PATH_def SHUTDOWN_ARGV_def SHUTDOWN_ENVP_def split: effect.splits)
  ultimately show "list_all ?P (trace w)" by (simp add: t)
qed

theorem shutdown_command_only_witness:
  "\<exists>a w. loop_entry (boot demo_os) demo_cfg a w \<and> list_all (\<lambda>e. \<not> is_Spawn e) (trace w)"
proof -
  obtain a w where e: "loop_entry (boot demo_os) demo_cfg a w" using demo_entry by blast
  have "list_all (\<lambda>e. \<not> is_Spawn e) (trace w)"
    using shutdown_command_only [OF running_start [OF e]]
    by (rule list.pred_mono_strong) (auto simp: demo_cfg_def load_defaults_eq split: effect.splits)
  with e show ?thesis by blast
qed

text \<open>C7: The shape of every finished run. Either start-up failed: the exit code is 1 and there was no successful
  READY notification, no probe and no command. Or the process set itself up, announced READY once,
  then monitored (log lines, STATUS and WATCHDOG notifications, received packets, echo requests of 64
  bytes that all go to the address the configured target denotes and, only with poweroff enabled, the
  shutdown command), announced STOPPING once, and after that only
  logged, closed descriptors and restored the signal mask; the exit code is then 0 or 1.\<close>
theorem run_trace_shape:
  assumes "ls_main (boot sys) = Some (rc, w)"
  shows "(rc = LS_EXIT_FAILURE \<and> list_all start_effect (trace w)) \<or>
    (\<exists>cfg tgt pre mid b post. ls_config_resolve sys = Inr cfg \<and> ls_addr_parse sys (Some (target cfg)) = Inr tgt \<and> (rc = LS_EXIT_SUCCESS \<or> rc = LS_EXIT_FAILURE) \<and>
       trace w = pre @ [Notify_send ''READY=1'' True] @ mid @ [Notify_send ''STOPPING=1'' b] @ post \<and>
       list_all setup_effect pre \<and> list_all (loop_effect (poweroff cfg) tgt) mid \<and> list_all exit_effect post)"
proof (rule ls_main_cases [of "boot sys"])
  fix e assume "ls_main (boot sys) = Some (LS_EXIT_FAILURE, log_fatal_error LS_LOG_ERROR e (boot sys))"
  moreover have "evolves start_effect (boot sys) (log_fatal_error LS_LOG_ERROR e (boot sys))"
    unfolding log_fatal_error_def by (auto simp: start_effect_def)
  ultimately show ?thesis using assms evolves_list_all [of start_effect] by fastforce
next
  fix cfg w' assume "ls_main (boot sys) = Some (LS_EXIT_FAILURE, w')" "evolves start_effect (boot sys) w'"
  then show ?thesis using assms evolves_list_all [of start_effect] by fastforce
next
  fix cfg a1 w1 assume e: "loop_entry (boot sys) cfg a1 w1"
  obtain a v u b where x: "loop_head app_client a1 w1 a v" "frame_inv a1 w1 a v" "rc = lp_exit_code (app_loop a)" "trace u = trace v"
    "evolves exit_effect (emit (Notify_send ''STOPPING=1'' b) u) w"
    using main_loop_exit [OF e assms] by metis
  have r: "running (boot sys) cfg a v" using e x(1) by (auto simp: running_def)
  obtain pre mid tgt where t: "evolves setup_effect (boot sys) pre" "trace v = trace pre @ [Notify_send ''READY=1'' True] @ mid"
    "ls_addr_parse sys (Some (target cfg)) = Inr tgt" "list_all (loop_effect (poweroff cfg) tgt) mid"
    using running_trace [OF r] by (metis boot_simps(1))
  obtain post where "trace w = trace u @ [Notify_send ''STOPPING=1'' b] @ post" "list_all exit_effect post"
    using x(5) by (auto simp: evolves_def)
  moreover have "rc = LS_EXIT_SUCCESS \<or> rc = LS_EXIT_FAILURE" using x(2,3) by (simp add: frame_inv_def)
  moreover have "ls_config_resolve sys = Inr cfg" using e by (simp add: loop_entry_def)
  moreover have "list_all setup_effect (trace pre)" using t(1) by (auto simp: evolves_def)
  ultimately show ?thesis
    using t(2-4) x(4) by (intro disjI2 exI [of _ cfg] exI [of _ tgt] exI [of _ "trace pre"] exI [of _ mid] exI [of _ b] exI [of _ post]) simp
qed

theorem run_trace_shape_witness:
  "\<exists>w. ls_main (boot demo_os) = Some (LS_EXIT_SUCCESS, w) \<and> Notify_send ''READY=1'' True \<in> set (trace w)"
proof -
  obtain w where m: "ls_main (boot demo_os) = Some (LS_EXIT_SUCCESS, w)" using demo_exits by blast
  have "LS_EXIT_SUCCESS \<noteq> LS_EXIT_FAILURE" by (simp add: LS_EXIT_SUCCESS_def LS_EXIT_FAILURE_def)
  with run_trace_shape [OF m] show ?thesis using m by fastforce
qed

text \<open>C8: Nothing is leaked. However a run ends (refused configuration, failed start-up, dry run, signal, clock or
  poll failure, accepted power-off), every descriptor that was opened has been closed exactly as often,
  and the process's signal mask is the one it inherited; the only exception is a kernel that refuses the
  call which was made to set exactly that inherited mask.\<close>
theorem resources_released:
  assumes "ls_main (boot sys) = Some (rc, w)"
  shows "fd_open fd w = 0 \<and>
    (signal_mask w = os_sigmask sys \<or>
     (\<exists>n e. os_sigprocmask sys n = Some e \<and> Restore_signals (os_sigmask sys) (Some e) \<in> set (trace w)))"
proof -
  have z: "fd_open fd (boot sys) = 0" by (simp add: fd_open_def)
  have "fd_open fd w = 0 \<and> mask_back (signal_mask (boot sys)) w \<and> world_os w = sys"
  proof (rule ls_main_cases [of "boot sys"])
    fix e assume "ls_main (boot sys) = Some (LS_EXIT_FAILURE, log_fatal_error LS_LOG_ERROR e (boot sys))"
    moreover have "mask_back (signal_mask (boot sys)) (log_fatal_error LS_LOG_ERROR e (boot sys))"
      unfolding log_fatal_error_def by (intro mask_back_log mask_back_simps)
    moreover have "evolves is_Stderr (boot sys) (log_fatal_error LS_LOG_ERROR e (boot sys))"
      by (auto simp: log_fatal_error_def)
    ultimately show ?thesis
      using assms z accounting_stderr(1) evolves_os by fastforce
  next
    fix cfg a1 w1 assume e: "loop_entry (boot sys) cfg a1 w1"
    show ?thesis
      by (rule main_loop_exit [OF e assms]) (use z in simp)
  qed (use assms z evolves_os in force)
  then show ?thesis by (auto simp: mask_back_def)
qed

theorem resources_released_witness:
  "\<exists>w. ls_main (boot demo_os) = Some (LS_EXIT_SUCCESS, w) \<and> fd_open 5 w = 0 \<and> signal_mask w = {}"
proof -
  have k: "os_sigprocmask demo_os n = None" "os_sigmask demo_os = {}" for n by (simp_all add: demo_os_def)
  obtain w where m: "ls_main (boot demo_os) = Some (LS_EXIT_SUCCESS, w)" using demo_exits by blast
  from resources_released [OF m] m show ?thesis by (simp add: k)
qed

text \<open>C9: The state of a running daemon is well formed: the three timer slots belong to their callbacks, the
  two descriptors polled are the signal channel (critical) and the ICMP socket (not critical), the
  failure count is not negative, the exit code is 0 or 1, and at most one probe is outstanding: the
  reply timer is armed exactly when the recorded sequence number is not 0, and then it is the number of the
  request sent last.\<close>
theorem running_state_wellformed:
  assumes "clock_sane sys" "running (boot sys) cfg a w"
  shows "map timer_cb (timers (app_loop a)) = [On_watchdog_timer, On_reply_timer, On_ping_timer] \<and>
    map (\<lambda>p. (poll_fd p, fd_cb p, fd_critical p)) (fds (app_loop a)) =
      [(signal_fd (app_loop a), Dispatch_signal_fd, True), (icmp_sockfd (app_icmp a), Fd_cb On_icmp_readable, False)] \<and>
    0 \<le> consecutive_fails a \<and> lp_exit_code (app_loop a) \<in> {0, 1} \<and>
    (reply_armed a \<longleftrightarrow> probe_sequence a \<noteq> 0) \<and>
    probe_sequence a = (if reply_armed a then icmp_sequence (app_icmp a) else 0)"
proof -
  obtain a1 w1 where e: "loop_entry (boot sys) cfg a1 w1" "mon_inv cfg (app_stats a1) a w"
    using running_mon [OF assms(2,1)] by metis
  obtain m where m: "app_wired cfg a" "mon_rel (app_stats a1) a w m" using e(2) by (auto simp: mon_inv_def)
  obtain a2 w2 where f: "loop_entry (boot sys) cfg a2 w2" "frame_inv a2 w2 a w" using running_frame [OF assms(2)] by metis
  from f(1) have "fd_sources (fds (app_loop a)) =
      [(signal_fd (app_loop a), Dispatch_signal_fd, True), (icmp_sockfd (app_icmp a), Fd_cb On_icmp_readable, False)]"
  proof (rule loop_entry_facts)
    fix fd now assume l: "app_loop a2 = started_loop (signal_mask (boot sys)) a2 fd now"
    have "fd_sources (fds (app_loop a2)) = [(signal_fd (app_loop a2), Dispatch_signal_fd, True),
        (icmp_sockfd (app_icmp a2), Fd_cb On_icmp_readable, False)]" by (simp add: l)
    with f(2) show ?thesis by (simp add: frame_inv_def same_channels_def)
  qed
  moreover have "lp_exit_code (app_loop a) \<in> {0, 1}"
    using f(2) by (simp add: frame_inv_def LS_EXIT_SUCCESS_def LS_EXIT_FAILURE_def)
  moreover have "(reply_armed a \<longleftrightarrow> probe_sequence a \<noteq> 0) \<and> probe_sequence a = (if reply_armed a then icmp_sequence (app_icmp a) else 0)
      \<and> 0 \<le> consecutive_fails a"
    using m(2) by (auto simp: mon_rel_def)
  ultimately show ?thesis
    using m(1) unfolding fd_sources_def app_wired_def by blast
qed

theorem running_state_wellformed_witness:
  "\<exists>a w. loop_entry (boot demo_os) demo_cfg a w \<and> length (timers (app_loop a)) = 3"
proof -
  obtain a w where e: "loop_entry (boot demo_os) demo_cfg a w" using demo_entry by blast
  have "map timer_cb (timers (app_loop a)) = [On_watchdog_timer, On_reply_timer, On_ping_timer]"
    using running_state_wellformed [OF demo_clock running_start [OF e]] by blast
  from arg_cong [OF this, of length] e show ?thesis by auto
qed

text \<open>C10: SIGINT and SIGTERM end the daemon. If, in any state in which the loop tests its condition, the
  next pass finds the signal channel readable and the pending signal is one of the two, the process
  exits, and with success; a probe in flight or a failing network does not change that.\<close>
theorem termination_signal_exits:
  assumes "running (boot sys) cfg a w" "\<not> stopping (app_loop a)" "pass_signal a w \<in> {Some SIGINT, Some SIGTERM}"
  shows "\<exists>w'. ls_main (boot sys) = Some (LS_EXIT_SUCCESS, w')"
  using signal_exits [OF assms(1,2)] assms(3) by auto

theorem termination_signal_exits_witness: "\<exists>w'. ls_main (boot demo_os) = Some (LS_EXIT_SUCCESS, w')"
proof -
  obtain a w where e: "loop_entry (boot demo_os) demo_cfg a w" using demo_entry by blast
  show ?thesis
    by (rule termination_signal_exits [OF running_start [OF e]]) (use demo_pass [OF e] in simp_all)
qed

text \<open>C18: Start-up succeeds on a host that cooperates. If the configuration is accepted, a notification socket is
  configured and reachable, descriptors can be had, the signal mask can be changed and the clock can be
  read, then the daemon reaches its event loop: READY has been announced, the loop is not stopping, and no probe
  has been sent yet. Whether the kernel accepts the packet filter makes no difference.\<close>
theorem startup_reaches_loop:
  assumes "ls_config_resolve sys = Inr cfg" "host_ready sys"
  shows "\<exists>a w. running (boot sys) cfg a w \<and> \<not> stopping (app_loop a) \<and> Notify_send ''READY=1'' True \<in> set (trace w) \<and>
    echoes w = 0"
proof -
  obtain a w where e: "loop_entry (boot sys) cfg a w" using startup_entry [OF assms] by blast
  from e show ?thesis
  proof (rule loop_entry_facts)
    fix fd now u assume l: "app_loop a = started_loop (signal_mask (boot sys)) a fd now"
      and ev: "evolves setup_effect (boot sys) u" "evolves quiet (emit (Notify_send ''READY=1'' True) u) w"
    have "\<not> stopping (app_loop a)" by (subst l) simp
    moreover have "Notify_send ''READY=1'' True \<in> set (trace w)" using ev(2) by (auto simp: evolves_def)
    moreover have "echoes w = 0" using setup_counts(2) [OF ev] by (simp add: echoes_def)
    ultimately show ?thesis using running_start [OF e] by blast
  qed
qed

theorem startup_reaches_loop_witness:
  "\<exists>a w. running (boot demo_os) demo_cfg a w \<and> Notify_send ''READY=1'' True \<in> set (trace w)"
  using startup_reaches_loop [OF demo_config demo_ready] by blast

text \<open>C21: A refused configuration. If any setting is rejected the process exits with code 1 after writing one
  line with the error to standard error, and does nothing else: no socket, no notification, no probe.\<close>
theorem config_error_exit:
  assumes "ls_config_resolve sys = Inl e"
  shows "\<exists>w. ls_main (boot sys) = Some (1, w) \<and>
    trace w = [Stderr (''[ERROR] '' @ take 2047 (''linkstay failed: '' @ e) @ [CHR 0x0A])]"
  using assms
  by (simp add: ls_main_def log_fatal_error_def logger_defs ls_logger_def ls_log_va_def ls_log_init_def Let_def
      ls_log_level_name_def LEVEL_NAMES_def c_snprintf_def LS_LOG_BUFFER_SIZE_def LS_PROGRAM_NAME_def LS_EXIT_FAILURE_def)

theorem config_error_exit_witness:
  "\<exists>w. ls_main (boot (sample_os\<lparr>os_inet_pton := \<lambda>_ _. None\<rparr>)) = Some (1, w)"
proof -
  have "\<exists>e. ls_config_resolve (sample_os\<lparr>os_inet_pton := \<lambda>_ _. None\<rparr>) = Inl e"
    by (simp add: ls_config_resolve_def load_env_def ENV_SPECS_def sample_os_def validate_def load_defaults_eq
      ls_addr_is_literal_def ls_addr_parse_def ls_err_set_def)
  with config_error_exit show ?thesis by blast
qed

end
